theory Spec2Isabelle
  imports Complex_Main "HOL-Library.Sublist"
begin

section \<open>JavaScript values that cross the worker boundary\<close>

text \<open>
  Everything the testbed posts to the worker is a plain JavaScript value: numbers,
  booleans, strings, \<open>undefined\<close>, \<open>null\<close>, arrays and object literals. An object literal is an
  association list in the order the source writes its keys, so that the presence of a key
  and a key whose value is \<open>undefined\<close> are different things, as they are for
  \<open>in\<close>, \<open>hasOwnProperty\<close> and the structured clone that \<open>postMessage\<close> makes.
  Numbers are modelled as reals: the code only copies and compares them.
\<close>

datatype jsval =
    JUndefined
  | JNull
  | JNum real
  | JBool bool
  | JStr string
  | JArr "jsval list"
  | JObj "(string \<times> jsval) list"

definition obj_fields :: "jsval \<Rightarrow> (string \<times> jsval) list" where
  "obj_fields v = (case v of JObj fs \<Rightarrow> fs | _ \<Rightarrow> [])"


definition field :: "jsval \<Rightarrow> string \<Rightarrow> jsval option" where
  "field v k = map_of (obj_fields v) k"

text \<open>\<open>obj.k = v\<close>: overwrite the key where it stands, or add it at the end.\<close>

fun assign :: "(string \<times> 'a) list \<Rightarrow> string \<Rightarrow> 'a \<Rightarrow> (string \<times> 'a) list" where
  "assign [] k v = [(k, v)]"
| "assign ((k', v') # fs) k v = (if k' = k then (k, v) # fs else (k', v') # assign fs k v)"

section \<open>The live world handed to the testbed\<close>

text \<open>
  Rigid bodies, colliders and joints are objects of the physics bindings; the testbed
  only calls their getters. Each is modelled by what its getters return. A getter that
  returns \<open>undefined\<close> for a shape or joint that lacks the quantity (\<open>radius\<close>,
  \<open>halfExtents\<close>, \<open>axis1\<close>, \<open>axis2\<close>, \<open>frameX1\<close>, \<open>frameX2\<close>) has an option type.
\<close>

datatype vec3 = Vec3 (vx: real) (vy: real) (vz: real)

datatype quat = Quat (qx: real) (qy: real) (qz: real) (qw: real)

record world =
  maxVelocityIterations :: int
  maxPositionIterations :: int
  timestep :: real

record rigidBody =
  body_handle :: int
  bodyType :: string
  translation :: vec3
  mass :: real

record collider =
  coll_handle :: int
  parentHandle :: int
  shapeType :: string
  radius :: "real option"
  density :: real
  friction :: real
  isSensor :: bool
  halfExtents :: "vec3 option"

record joint =
  bodyHandle1 :: int
  bodyHandle2 :: int
  jointType :: string
  anchor1 :: vec3
  anchor2 :: vec3
  axis1 :: "vec3 option"
  axis2 :: "vec3 option"
  frameX1 :: "quat option"
  frameX2 :: "quat option"

section \<open>extractWorldDescription\<close>

definition num :: "int \<Rightarrow> jsval" where
  "num n = JNum (real_of_int n)"

definition optnum :: "real option \<Rightarrow> jsval" where
  "optnum r = (case r of None \<Rightarrow> JUndefined | Some v \<Rightarrow> JNum v)"

text \<open>The literals \<open>{ x: v.x, y: v.y, z: v.z }\<close> and \<open>{ x: q.x, y: q.y, z: q.z, w: q.w }\<close>.\<close>

definition vec3_literal :: "vec3 \<Rightarrow> jsval" where
  "vec3_literal v = JObj [(''x'', JNum (vx v)), (''y'', JNum (vy v)), (''z'', JNum (vz v))]"

definition quat_literal :: "quat \<Rightarrow> jsval" where
  "quat_literal q =
     JObj [(''x'', JNum (qx q)), (''y'', JNum (qy q)), (''z'', JNum (qz q)), (''w'', JNum (qw q))]"

text \<open>\<open>e || d\<close> for a getter result that is an object or \<open>undefined\<close>.\<close>

definition or_else :: "'a option \<Rightarrow> 'a \<Rightarrow> 'a" where
  "or_else e d = (case e of None \<Rightarrow> d | Some v \<Rightarrow> v)"

definition metaWorld :: "world \<Rightarrow> jsval" where
  "metaWorld w =
     JObj [(''maxVelocityIterations'', num (maxVelocityIterations w)),
           (''maxPositionIterations'', num (maxPositionIterations w))]"

definition metaBody :: "rigidBody \<Rightarrow> jsval" where
  "metaBody body =
     (let pos = translation body in
      JObj [(''handle'', num (body_handle body)),
            (''type'', JStr (bodyType body)),
            (''translation'', vec3_literal pos),
            (''mass'', JNum (mass body))])"

definition metaCollider :: "collider \<Rightarrow> jsval" where
  "metaCollider coll =
     (let meta = [(''handle'', num (coll_handle coll)),
                  (''parentHandle'', num (parentHandle coll)),
                  (''type'', JStr (shapeType coll)),
                  (''radius'', optnum (radius coll)),
                  (''density'', JNum (density coll)),
                  (''friction'', JNum (friction coll)),
                  (''isSensor'', JBool (isSensor coll))]
      in case halfExtents coll of
           None \<Rightarrow> JObj meta
         | Some he \<Rightarrow> JObj (assign meta ''halfExtents'' (vec3_literal he)))"

definition metaJoint :: "joint \<Rightarrow> jsval" where
  "metaJoint j =
     (let a1 = anchor1 j;
          a2 = anchor2 j;
          ax1 = or_else (axis1 j) (Vec3 0 0 0);
          ax2 = or_else (axis2 j) (Vec3 0 0 0);
          fx1 = or_else (frameX1 j) (Quat 0 0 0 1);
          fx2 = or_else (frameX2 j) (Quat 0 0 0 1)
      in JObj [(''handle1'', num (bodyHandle1 j)),
               (''handle2'', num (bodyHandle2 j)),
               (''type'', JStr (jointType j)),
               (''anchor1'', vec3_literal a1),
               (''anchor2'', vec3_literal a2),
               (''axis1'', vec3_literal ax1),
               (''axis2'', vec3_literal ax2),
               (''frameX1'', quat_literal fx1),
               (''frameX2'', quat_literal fx2)])"

text \<open>
  The \<open>joints\<close> argument is \<open>None\<close> when the caller omits it or passes any other falsy
  value; an array, empty or not, is truthy.
\<close>

definition extractWorldDescription ::
  "world \<Rightarrow> rigidBody list \<Rightarrow> collider list \<Rightarrow> joint list option \<Rightarrow> jsval" where
  "extractWorldDescription w bs cs js =
     JObj [(''world'', metaWorld w),
           (''bodies'', JArr (map metaBody bs)),
           (''colliders'', JArr (map metaCollider cs)),
           (''joints'', (case js of None \<Rightarrow> JArr [] | Some l \<Rightarrow> JArr (map metaJoint l)))]"

section \<open>The testbed session\<close>

record simulationParameters =
  backend :: string
  prevBackend :: string
  demo :: string
  numVelocityIter :: int
  numPositionIter :: int
  running :: bool
  stepping :: bool
  debugInfos :: bool

text \<open>
  The \<open>data\<close> of a message from the worker. The handler reads its \<open>token\<close>,
  \<open>positions\<close> and \<open>stepTime\<close> and hands the whole of it to the debug display.
\<close>

record resultData =
  token :: int
  positions :: jsval
  stepTime :: jsval

text \<open>
  Graphics and Gui are collaborators outside this development; what the presentation
  shows is determined by the calls the testbed makes on them, kept here in order.
\<close>

datatype presentationCall =
    UpdatePositions jsval
  | SetTiming jsval
  | SetDebugInfos resultData
  | ResetTiming
  | AddCollider collider
  | StatsBegin
  | Render
  | StatsEnd

text \<open>
  A callback given to \<open>setTimeout\<close> that has not run yet: the delay passed, the time at
  which it was passed, and the step message the callback has captured.
\<close>

record timer =
  delay :: int
  setAt :: int
  payload :: jsval

text \<open>\<open>setTimeout\<close> runs a callback no earlier than its delay, a negative delay counting as 0.\<close>

definition due :: "timer \<Rightarrow> int" where
  "due t = setAt t + max 0 (delay t)"

text \<open>
  The fields of a \<open>Testbed\<close>. Those assigned first by \<open>setWorld\<close> are
  \<open>undefined\<close> (\<open>None\<close>) until then. The token and the clock readings are
  JavaScript numbers that hold integers; they are modelled as unbounded integers, on which
  \<open>+= 1\<close> and the subtraction of two clock readings are exact. \<open>outbox\<close> is the sequence of
  \<open>worker.postMessage\<close> calls made so far, \<open>timers\<close> the pending \<open>setTimeout\<close>
  callbacks, oldest first.
\<close>

record testbed =
  parameters :: simulationParameters
  demoToken :: int
  world :: "world option"
  bodies :: "rigidBody list option"
  colliders :: "collider list option"
  joints :: "joint list option"
  lastMessageTime :: "int option"
  outbox :: "jsval list"
  timers :: "timer list"
  presentation :: "presentationCall list"

datatype error = TypeError

definition postMessage :: "jsval \<Rightarrow> testbed \<Rightarrow> testbed" where
  "postMessage m s = s\<lparr>outbox := outbox s @ [m]\<rparr>"

definition present :: "presentationCall list \<Rightarrow> testbed \<Rightarrow> testbed" where
  "present cs s = s\<lparr>presentation := presentation s @ cs\<rparr>"

text \<open>
  The state in which the constructor has assigned its fields, before it calls
  \<open>switchToDemo\<close>; the demo builder called from there makes the first \<open>setWorld\<close> call,
  and only afterwards is the message handler installed.
\<close>

definition constructed :: testbed where
  "constructed =
     \<lparr>parameters =
        \<lparr>backend = ''rapier'', prevBackend = ''rapier'', demo = ''cubes'',
         numVelocityIter = 4, numPositionIter = 1, running = True, stepping = False,
         debugInfos = False\<rparr>,
      demoToken = 0, world = None, bodies = None, colliders = None, joints = None,
      lastMessageTime = None, outbox = [], timers = [], presentation = []\<rparr>"

subsection \<open>stepMessage\<close>

definition stepMessage :: "testbed \<Rightarrow> jsval \<times> testbed" where
  "stepMessage s =
     (let p = parameters s;
          res = JObj [(''type'', JStr ''step''),
                      (''maxVelocityIterations'', num (numVelocityIter p)),
                      (''maxPositionIterations'', num (numPositionIter p)),
                      (''running'', JBool (running p \<or> stepping p)),
                      (''debugInfos'', JBool (debugInfos p))]
      in (res, if stepping p
               then s\<lparr>parameters := p\<lparr>running := False, stepping := False\<rparr>\<rparr>
               else s))"

subsection \<open>setWorld\<close>

text \<open>
  The world object is mutated in place before it is encoded, so the description carries
  the iteration counts of the parameters. \<open>now\<close> is what \<open>new Date().getTime()\<close>
  returns at the end of the call.
\<close>

definition setWorld ::
  "testbed \<Rightarrow> world \<Rightarrow> rigidBody list \<Rightarrow> collider list \<Rightarrow> joint list option \<Rightarrow> int \<Rightarrow> testbed" where
  "setWorld s w bs cs js now =
     (let p = parameters s;
          w' = w\<lparr>maxVelocityIterations := numVelocityIter p,
                 maxPositionIterations := numPositionIter p\<rparr>;
          s1 = s\<lparr>world := Some w',
                 demoToken := demoToken s + 1,
                 bodies := Some bs,
                 colliders := Some cs,
                 joints := Some (case js of Some l \<Rightarrow> l | None \<Rightarrow> [])\<rparr>;
          s2 = present (ResetTiming # map AddCollider cs) s1;
          desc = extractWorldDescription w' bs cs js;
          message = JObj ([(''type'', JStr ''setWorld''),
                           (''backend'', JStr (backend p)),
                           (''token'', num (demoToken s2))] @ obj_fields desc);
          s3 = postMessage message s2;
          (sm, s4) = stepMessage s3;
          s5 = postMessage sm s4
      in s5\<lparr>lastMessageTime := Some now\<rparr>)"

subsection \<open>The handler of worker messages\<close>

text \<open>
  \<open>dat\<close> is \<open>msg.data\<close>, \<open>None\<close> when it is falsy; \<open>now\<close> is the clock reading taken in
  the handler. Reading \<open>this.world.timestep\<close> throws while no world is set, after the
  presentation calls and \<open>stepMessage\<close> have taken effect. A \<open>lastMessageTime\<close> that is
  still \<open>undefined\<close> makes the difference \<open>NaN\<close>: the comparison is false and the
  delay counts as 0. The product \<open>timestep * 1000\<close> is taken over the reals, without
  the rounding of floating-point multiplication.
\<close>

definition onmessage :: "testbed \<Rightarrow> resultData option \<Rightarrow> int \<Rightarrow> (error \<times> testbed) + testbed" where
  "onmessage s dat now =
     (if (case dat of Some d \<Rightarrow> token d \<noteq> demoToken s | None \<Rightarrow> False) then Inr s
      else
        (let s1 = (case dat of
                     Some d \<Rightarrow>
                       if token d = demoToken s
                       then present [UpdatePositions (positions d), SetTiming (stepTime d),
                                     SetDebugInfos d] s
                       else s
                   | None \<Rightarrow> s);
             (sm, s2) = stepMessage s1
         in case world s2 of
              None \<Rightarrow> Inl (TypeError, s2)
            | Some w \<Rightarrow>
                (case lastMessageTime s2 of
                   Some sent \<Rightarrow>
                     if real_of_int (now - sent) \<ge> timestep w * 1000
                     then Inr ((postMessage sm s2)\<lparr>lastMessageTime := Some now\<rparr>)
                     else Inr (s2\<lparr>timers := timers s2 @
                                 [\<lparr>delay = now - sent, setAt = now, payload = sm\<rparr>]\<rparr>)
                 | None \<Rightarrow>
                     Inr (s2\<lparr>timers := timers s2 @
                            [\<lparr>delay = 0, setAt = now, payload = sm\<rparr>]\<rparr>))))"

text \<open>
  An exception thrown by an event handler is not caught by the testbed; the page goes on
  with the state as the handler left it.
\<close>

definition settle :: "(error \<times> testbed) + testbed \<Rightarrow> testbed" where
  "settle r = (case r of Inl (e, s) \<Rightarrow> s | Inr s \<Rightarrow> s)"

subsection \<open>The deferred callback, snapshots, the render loop\<close>

text \<open>
  The \<open>i\<close>-th pending callback runs at time \<open>now\<close>: it posts the step message it has
  captured and records the time. It cannot run before it is due.
\<close>

definition timeout :: "testbed \<Rightarrow> nat \<Rightarrow> int \<Rightarrow> testbed" where
  "timeout s i now =
     (if i < length (timers s) \<and> due (timers s ! i) \<le> now
      then (postMessage (payload (timers s ! i)) s)
             \<lparr>lastMessageTime := Some now,
              timers := take i (timers s) @ drop (Suc i) (timers s)\<rparr>
      else s)"

definition takeSnapshot :: "testbed \<Rightarrow> testbed" where
  "takeSnapshot s = postMessage (JObj [(''type'', JStr ''takeSnapshot'')]) s"

definition restoreSnapshot :: "testbed \<Rightarrow> testbed" where
  "restoreSnapshot s = postMessage (JObj [(''type'', JStr ''restoreSnapshot'')]) s"

text \<open>\<open>run\<close> renders a frame and asks for the next; it touches nothing of the step loop.\<close>

definition run :: "testbed \<Rightarrow> testbed" where
  "run s = present [StatsBegin, Render, StatsEnd] s"

subsection \<open>Sessions\<close>

text \<open>
  What can happen to a testbed: a demo builder calls \<open>setWorld\<close>, the worker delivers a
  message, a pending callback runs, the user takes or restores a snapshot or edits the
  parameters in the Gui, the browser asks for a frame.
\<close>

datatype event =
    SetWorld world "rigidBody list" "collider list" "joint list option" int
  | Message "resultData option" int
  | Timeout nat int
  | TakeSnapshot
  | RestoreSnapshot
  | GuiEdit simulationParameters
  | RenderTick

fun handle :: "testbed \<Rightarrow> event \<Rightarrow> testbed" where
  "handle s (SetWorld w bs cs js now) = setWorld s w bs cs js now"
| "handle s (Message dat now) = settle (onmessage s dat now)"
| "handle s (Timeout i now) = timeout s i now"
| "handle s TakeSnapshot = takeSnapshot s"
| "handle s RestoreSnapshot = restoreSnapshot s"
| "handle s (GuiEdit p) = s\<lparr>parameters := p\<rparr>"
| "handle s RenderTick = run s"

definition session :: "testbed \<Rightarrow> event list \<Rightarrow> testbed" where
  "session s evs = foldl handle s evs"

text \<open>The tokens of the \<open>setWorld\<close> messages among the messages posted, in order.\<close>

definition is_setWorld :: "jsval \<Rightarrow> bool" where
  "is_setWorld m = (field m ''type'' = Some (JStr ''setWorld''))"

definition setWorld_tokens :: "jsval list \<Rightarrow> jsval option list" where
  "setWorld_tokens ms = map (\<lambda>m. field m ''token'') (filter is_setWorld ms)"

definition is_step :: "jsval \<Rightarrow> bool" where
  "is_step m = (field m ''type'' = Some (JStr ''step''))"

text \<open>Every pending callback has captured a step message.\<close>

definition timers_hold_steps :: "testbed \<Rightarrow> bool" where
  "timers_hold_steps s = list_all (\<lambda>t. is_step (payload t)) (timers s)"

text \<open>The number of step messages posted so far.\<close>

definition steps_posted :: "testbed \<Rightarrow> nat" where
  "steps_posted s = length (filter is_step (outbox s))"

fun setWorld_calls :: "event list \<Rightarrow> nat" where
  "setWorld_calls [] = 0"
| "setWorld_calls (SetWorld w bs cs js now # evs) = Suc (setWorld_calls evs)"
| "setWorld_calls (e # evs) = setWorld_calls evs"

section \<open>extractWorldDescription over an explicit store\<close>

text \<open>
  To say what the encoder shares with the live world, objects need identity. Here a value
  is a primitive or a reference, and the store maps each address (an index) to the object
  that lives there: an object of the physics bindings, an object literal or an array.
  Allocation takes the next free address. The getters of the bindings return what the
  object holds and leave the store alone. A getter called on a value that is not the
  object the encoder expects, and \<open>map\<close> called on a value that is not an array, end the
  encoding with an error; the store built until then stays as it is.
\<close>

type_synonym addr = nat

datatype val = VUndefined | VNull | VNum real | VBool bool | VStr string | VRef addr

datatype cell =
    LiveWorld world
  | LiveBody rigidBody
  | LiveCollider collider
  | LiveJoint joint
  | Lit "(string \<times> val) list"
  | Arr "val list"

type_synonym store = "cell list"

type_synonym 'a st = "store \<Rightarrow> (error + 'a) \<times> store"

definition return_st :: "'a \<Rightarrow> 'a st" where
  "return_st r h = (Inr r, h)"

definition bind_st :: "'a st \<Rightarrow> ('a \<Rightarrow> 'b st) \<Rightarrow> 'b st" where
  "bind_st m f h = (case m h of (Inl e, h1) \<Rightarrow> (Inl e, h1) | (Inr r, h1) \<Rightarrow> f r h1)"

definition alloc :: "cell \<Rightarrow> val st" where
  "alloc c h = (Inr (VRef (length h)), h @ [c])"

definition deref :: "store \<Rightarrow> val \<Rightarrow> cell option" where
  "deref h v = (case v of VRef a \<Rightarrow> if a < length h then Some (h ! a) else None | _ \<Rightarrow> None)"

text \<open>\<open>obj.k = v\<close> on the object literal at a reference.\<close>

definition assign_st :: "val \<Rightarrow> string \<Rightarrow> val \<Rightarrow> unit st" where
  "assign_st r k v h =
     (case r of
        VRef a \<Rightarrow>
          (if a < length h
           then (case h ! a of
                   Lit fs \<Rightarrow> (Inr (), h[a := Lit (assign fs k v)])
                 | _ \<Rightarrow> (Inl TypeError, h))
           else (Inl TypeError, h))
      | _ \<Rightarrow> (Inl TypeError, h))"

definition truthy :: "val \<Rightarrow> bool" where
  "truthy v = (case v of VUndefined \<Rightarrow> False | VNull \<Rightarrow> False | VNum n \<Rightarrow> n \<noteq> 0
                 | VBool b \<Rightarrow> b | VStr t \<Rightarrow> t \<noteq> [] | VRef a \<Rightarrow> True)"

definition vnum :: "int \<Rightarrow> val" where
  "vnum n = VNum (real_of_int n)"

definition voptnum :: "real option \<Rightarrow> val" where
  "voptnum r = (case r of None \<Rightarrow> VUndefined | Some v \<Rightarrow> VNum v)"

definition vec3_new :: "vec3 \<Rightarrow> val st" where
  "vec3_new v = alloc (Lit [(''x'', VNum (vx v)), (''y'', VNum (vy v)), (''z'', VNum (vz v))])"

definition quat_new :: "quat \<Rightarrow> val st" where
  "quat_new q =
     alloc (Lit [(''x'', VNum (qx q)), (''y'', VNum (qy q)), (''z'', VNum (qz q)),
                 (''w'', VNum (qw q))])"

fun map_st :: "(val \<Rightarrow> val st) \<Rightarrow> val list \<Rightarrow> val list st" where
  "map_st f [] = return_st []"
| "map_st f (v # vs) =
     bind_st (f v) (\<lambda>r. bind_st (map_st f vs) (\<lambda>rs. return_st (r # rs)))"

text \<open>\<open>arr.map(f)\<close>: the results go into a new array.\<close>

definition array_map :: "(val \<Rightarrow> val st) \<Rightarrow> val \<Rightarrow> val st" where
  "array_map f arr h =
     (case deref h arr of
        Some (Arr vs) \<Rightarrow> bind_st (map_st f vs) (\<lambda>rs. alloc (Arr rs)) h
      | _ \<Rightarrow> (Inl TypeError, h))"

definition metaWorld_st :: "val \<Rightarrow> val st" where
  "metaWorld_st wv h =
     (case deref h wv of
        Some (LiveWorld w) \<Rightarrow>
          alloc (Lit [(''maxVelocityIterations'', vnum (maxVelocityIterations w)),
                      (''maxPositionIterations'', vnum (maxPositionIterations w))]) h
      | _ \<Rightarrow> (Inl TypeError, h))"

definition metaBody_st :: "val \<Rightarrow> val st" where
  "metaBody_st bv h =
     (case deref h bv of
        Some (LiveBody body) \<Rightarrow>
          (let pos = translation body in
           bind_st (vec3_new pos) (\<lambda>t.
             alloc (Lit [(''handle'', vnum (body_handle body)),
                         (''type'', VStr (bodyType body)),
                         (''translation'', t),
                         (''mass'', VNum (mass body))]))) h
      | _ \<Rightarrow> (Inl TypeError, h))"

definition metaCollider_st :: "val \<Rightarrow> val st" where
  "metaCollider_st cv h =
     (case deref h cv of
        Some (LiveCollider coll) \<Rightarrow>
          bind_st (alloc (Lit [(''handle'', vnum (coll_handle coll)),
                               (''parentHandle'', vnum (parentHandle coll)),
                               (''type'', VStr (shapeType coll)),
                               (''radius'', voptnum (radius coll)),
                               (''density'', VNum (density coll)),
                               (''friction'', VNum (friction coll)),
                               (''isSensor'', VBool (isSensor coll))])) (\<lambda>meta.
            case halfExtents coll of
              None \<Rightarrow> return_st meta
            | Some he \<Rightarrow>
                bind_st (vec3_new he) (\<lambda>l.
                bind_st (assign_st meta ''halfExtents'' l) (\<lambda>u. return_st meta))) h
      | _ \<Rightarrow> (Inl TypeError, h))"

definition metaJoint_st :: "val \<Rightarrow> val st" where
  "metaJoint_st jv h =
     (case deref h jv of
        Some (LiveJoint j) \<Rightarrow>
          (let a1 = anchor1 j;
               a2 = anchor2 j;
               ax1 = or_else (axis1 j) (Vec3 0 0 0);
               ax2 = or_else (axis2 j) (Vec3 0 0 0);
               fx1 = or_else (frameX1 j) (Quat 0 0 0 1);
               fx2 = or_else (frameX2 j) (Quat 0 0 0 1)
           in bind_st (vec3_new a1) (\<lambda>r1.
              bind_st (vec3_new a2) (\<lambda>r2.
              bind_st (vec3_new ax1) (\<lambda>r3.
              bind_st (vec3_new ax2) (\<lambda>r4.
              bind_st (quat_new fx1) (\<lambda>r5.
              bind_st (quat_new fx2) (\<lambda>r6.
                alloc (Lit [(''handle1'', vnum (bodyHandle1 j)),
                            (''handle2'', vnum (bodyHandle2 j)),
                            (''type'', VStr (jointType j)),
                            (''anchor1'', r1),
                            (''anchor2'', r2),
                            (''axis1'', r3),
                            (''axis2'', r4),
                            (''frameX1'', r5),
                            (''frameX2'', r6)])))))))) h
      | _ \<Rightarrow> (Inl TypeError, h))"

definition extractWorldDescription_st :: "val \<Rightarrow> val \<Rightarrow> val \<Rightarrow> val \<Rightarrow> val st" where
  "extractWorldDescription_st wv bodies_v colliders_v joints_v =
     bind_st (metaWorld_st wv) (\<lambda>mw.
     bind_st (array_map metaBody_st bodies_v) (\<lambda>mb.
     bind_st (array_map metaCollider_st colliders_v) (\<lambda>mc.
     bind_st (if \<not> truthy joints_v then alloc (Arr [])
              else array_map metaJoint_st joints_v) (\<lambda>mj.
       alloc (Lit [(''world'', mw), (''bodies'', mb), (''colliders'', mc),
                   (''joints'', mj)])))))"

text \<open>The references a cell holds, and the addresses a value leads to.\<close>

definition refs_of :: "cell \<Rightarrow> addr set" where
  "refs_of c =
     (case c of
        Lit fs \<Rightarrow> {a. VRef a \<in> snd ` set fs}
      | Arr vs \<Rightarrow> {a. VRef a \<in> set vs}
      | _ \<Rightarrow> {})"

inductive reach :: "store \<Rightarrow> val \<Rightarrow> addr \<Rightarrow> bool" where
  reach_here: "reach h (VRef a) a"
| reach_step: "reach h v a \<Longrightarrow> a < length h \<Longrightarrow> b \<in> refs_of (h ! a) \<Longrightarrow> reach h v b"

text \<open>A cell the encoder has built, as opposed to an object of the bindings.\<close>

definition built :: "cell \<Rightarrow> bool" where
  "built c = (case c of Lit fs \<Rightarrow> True | Arr vs \<Rightarrow> True | _ \<Rightarrow> False)"

text \<open>
  Reading a value out of the store as the structured clone of \<open>postMessage\<close> does, to
  the given depth: \<open>None\<close> when the depth runs out or an object of the bindings is met.
\<close>

fun clone :: "nat \<Rightarrow> store \<Rightarrow> val \<Rightarrow> jsval option" where
  "clone n h VUndefined = Some JUndefined"
| "clone n h VNull = Some JNull"
| "clone n h (VNum r) = Some (JNum r)"
| "clone n h (VBool b) = Some (JBool b)"
| "clone n h (VStr t) = Some (JStr t)"
| "clone 0 h (VRef a) = None"
| "clone (Suc n) h (VRef a) =
     (if a < length h
      then (case h ! a of
              Lit fs \<Rightarrow>
                map_option JObj
                  (those (map (\<lambda>kv. map_option (Pair (fst kv)) (clone n h (snd kv))) fs))
            | Arr vs \<Rightarrow> map_option JArr (those (map (clone n h) vs))
            | _ \<Rightarrow> None)
      else None)"

text \<open>
  Bookkeeping for the encoder's allocations, relative to an address \<open>n\<close> (the size
  of the store when the encoder was called): every cell from \<open>n\<close> on is one the
  encoder has built and refers only to cells from \<open>n\<close> on; a value is a primitive or
  refers to such a cell; a computation extends the store, keeps this, and returns such a
  value.
\<close>

definition fresh_from :: "nat \<Rightarrow> store \<Rightarrow> bool" where
  "fresh_from n h =
     (\<forall>a. n \<le> a \<and> a < length h \<longrightarrow>
          built (h ! a) \<and> (\<forall>b\<in>refs_of (h ! a). n \<le> b \<and> b < length h))"

definition ok_val :: "nat \<Rightarrow> store \<Rightarrow> val \<Rightarrow> bool" where
  "ok_val n h v = (case v of VRef a \<Rightarrow> n \<le> a \<and> a < length h | _ \<Rightarrow> True)"

definition tidy :: "val st \<Rightarrow> bool" where
  "tidy m =
     (\<forall>n h r h'. m h = (r, h') \<and> n \<le> length h \<and> fresh_from n h \<longrightarrow>
        prefix h h' \<and> fresh_from n h' \<and> (\<forall>v. r = Inr v \<longrightarrow> ok_val n h' v))"

text \<open>
  The store holds the live world that the arguments of the encoder refer to: the world,
  the array of bodies, the array of colliders and, unless the argument is falsy, the array
  of joints.
\<close>

definition is_world :: "store \<Rightarrow> val \<Rightarrow> world \<Rightarrow> bool" where
  "is_world h v w = (deref h v = Some (LiveWorld w))"

definition is_bodies :: "store \<Rightarrow> val \<Rightarrow> rigidBody list \<Rightarrow> bool" where
  "is_bodies h v bs =
     (case deref h v of
        Some (Arr vs) \<Rightarrow> list_all2 (\<lambda>e b. deref h e = Some (LiveBody b)) vs bs
      | _ \<Rightarrow> False)"

definition is_colliders :: "store \<Rightarrow> val \<Rightarrow> collider list \<Rightarrow> bool" where
  "is_colliders h v cs =
     (case deref h v of
        Some (Arr vs) \<Rightarrow> list_all2 (\<lambda>e c. deref h e = Some (LiveCollider c)) vs cs
      | _ \<Rightarrow> False)"

definition is_joints :: "store \<Rightarrow> val \<Rightarrow> joint list option \<Rightarrow> bool" where
  "is_joints h v js =
     (case js of
        None \<Rightarrow> \<not> truthy v
      | Some l \<Rightarrow>
          (case deref h v of
             Some (Arr vs) \<Rightarrow> list_all2 (\<lambda>e j. deref h e = Some (LiveJoint j)) vs l
           | _ \<Rightarrow> False))"

section \<open>Example inputs\<close>

definition world60 :: world where
  "world60 = \<lparr>maxVelocityIterations = 8, maxPositionIterations = 2, timestep = 1 / 60\<rparr>"

definition ground :: rigidBody where
  "ground = \<lparr>body_handle = 0, bodyType = ''static'', translation = Vec3 0 0 0, mass = 0\<rparr>"

definition cube :: rigidBody where
  "cube = \<lparr>body_handle = 1, bodyType = ''dynamic'', translation = Vec3 0 5 0, mass = 1\<rparr>"

definition cuboid :: collider where
  "cuboid = \<lparr>coll_handle = 0, parentHandle = 0, shapeType = ''Cuboid'', radius = None,
             density = 1, friction = 1 / 2, isSensor = False,
             halfExtents = Some (Vec3 100 (1 / 10) 100)\<rparr>"

definition ball :: collider where
  "ball = \<lparr>coll_handle = 1, parentHandle = 1, shapeType = ''Ball'', radius = Some (1 / 2),
           density = 1, friction = 1 / 2, isSensor = False, halfExtents = None\<rparr>"

definition ball_joint :: joint where
  "ball_joint = \<lparr>bodyHandle1 = 0, bodyHandle2 = 1, jointType = ''Ball'',
                 anchor1 = Vec3 0 0 0, anchor2 = Vec3 0 1 0,
                 axis1 = None, axis2 = None, frameX1 = None, frameX2 = None\<rparr>"

definition framed_joint :: joint where
  "framed_joint = \<lparr>bodyHandle1 = 0, bodyHandle2 = 1, jointType = ''Revolute'',
                   anchor1 = Vec3 0 0 0, anchor2 = Vec3 0 1 0,
                   axis1 = Some (Vec3 1 0 0), axis2 = Some (Vec3 0 0 1),
                   frameX1 = Some (Quat 0 1 0 0), frameX2 = Some (Quat 1 0 0 0)\<rparr>"

text \<open>A store holding a live world with two bodies, two colliders and two joints.\<close>

definition live_store :: store where
  "live_store =
     [LiveWorld world60, Arr [VRef 4, VRef 5], Arr [VRef 6, VRef 7], Arr [VRef 8, VRef 9],
      LiveBody ground, LiveBody cube, LiveCollider cuboid, LiveCollider ball,
      LiveJoint ball_joint, LiveJoint framed_joint]"

text \<open>The session after the constructor's first \<open>setWorld\<close>, made at time 0.\<close>

definition started :: testbed where
  "started = setWorld constructed world60 [ground, cube] [cuboid, ball] None 0"

definition result_for :: "int \<Rightarrow> resultData" where
  "result_for t = \<lparr>token = t, positions = JArr [], stepTime = JNum 1\<rparr>"

text \<open>
  A demo switch while a deferred dispatch is pending: the first world is set at time 0 and
  its first result arrives at 5 ms; the second world is set at 7 ms and its first result
  arrives at 9 ms. Then both pending callbacks run, at 10 ms and 11 ms, and the worker
  answers each of the two step messages they post, at 12 ms and 13 ms, with the token of
  the world it holds. Every message of the worker answers one step message.
\<close>

definition demo_switch :: "event list" where
  "demo_switch =
     [SetWorld world60 [ground] [cuboid] None 0, Message (Some (result_for 1)) 5,
      SetWorld world60 [ground] [cuboid] None 7, Message (Some (result_for 2)) 9]"

definition demo_switch_continued :: "event list" where
  "demo_switch_continued =
     demo_switch @
     [Timeout 0 10, Timeout 0 11,
      Message (Some (result_for 2)) 12, Message (Some (result_for 2)) 13]"

text \<open>The user has paused the simulation and asked for a single step.\<close>

definition single_step_requested :: testbed where
  "single_step_requested =
     started\<lparr>parameters := (parameters started)\<lparr>running := False, stepping := True\<rparr>\<rparr>"

section \<open>What each operation does to the token, the outbox and the timers\<close>

lemma setWorld_outbox:
  "outbox (setWorld s w bs cs js now) =
     outbox s @ [JObj ([(''type'', JStr ''setWorld''), (''backend'', JStr (backend (parameters s))),
                        (''token'', num (demoToken s + 1))]
                       @ obj_fields (extractWorldDescription
                           (w\<lparr>maxVelocityIterations := numVelocityIter (parameters s),
                              maxPositionIterations := numPositionIter (parameters s)\<rparr>) bs cs js)),
                 fst (stepMessage s)]"
  by (simp add: setWorld_def Let_def postMessage_def present_def stepMessage_def split: prod.splits)

lemma setWorld_demoToken: "demoToken (setWorld s w bs cs js now) = demoToken s + 1"
  by (simp add: setWorld_def Let_def postMessage_def present_def stepMessage_def split: prod.splits)

lemma setWorld_timers: "timers (setWorld s w bs cs js now) = timers s"
  by (simp add: setWorld_def Let_def postMessage_def present_def stepMessage_def split: prod.splits)

lemma is_step_stepMessage: "is_step (fst (stepMessage s))"
  by (simp add: stepMessage_def Let_def is_step_def field_def obj_fields_def)

lemma step_not_setWorld: "is_step m \<Longrightarrow> \<not> is_setWorld m"
  by (simp add: is_step_def is_setWorld_def)

lemma stepMessage_frame:
  "demoToken (snd (stepMessage s)) = demoToken s"
  "outbox (snd (stepMessage s)) = outbox s"
  "timers (snd (stepMessage s)) = timers s"
  "world (snd (stepMessage s)) = world s"
  "lastMessageTime (snd (stepMessage s)) = lastMessageTime s"
  "presentation (snd (stepMessage s)) = presentation s"
  by (simp_all add: stepMessage_def Let_def)

lemma stepMessage_fst_present: "fst (stepMessage (present cs s)) = fst (stepMessage s)"
  by (simp add: stepMessage_def Let_def present_def)

lemma onmessage_demoToken: "demoToken (settle (onmessage s dat now)) = demoToken s"
  by (simp add: onmessage_def settle_def Let_def case_prod_beta present_def postMessage_def
        stepMessage_frame split: option.splits)

lemma onmessage_outbox:
  "outbox (settle (onmessage s dat now)) = outbox s
   \<or> outbox (settle (onmessage s dat now)) = outbox s @ [fst (stepMessage s)]"
  by (simp add: onmessage_def settle_def Let_def case_prod_beta present_def postMessage_def
        stepMessage_frame stepMessage_fst_present [unfolded present_def] split: option.splits)

lemma onmessage_timers:
  "timers (settle (onmessage s dat now)) = timers s
   \<or> (\<exists>d. timers (settle (onmessage s dat now))
            = timers s @ [\<lparr>delay = d, setAt = now, payload = fst (stepMessage s)\<rparr>])"
  by (simp add: onmessage_def settle_def Let_def case_prod_beta present_def postMessage_def
        stepMessage_frame stepMessage_fst_present [unfolded present_def] split: option.splits)

lemma timeout_demoToken: "demoToken (timeout s i now) = demoToken s"
  by (simp add: timeout_def postMessage_def)

lemma timeout_outbox:
  "outbox (timeout s i now) = outbox s
   \<or> (i < length (timers s) \<and> outbox (timeout s i now) = outbox s @ [payload (timers s ! i)])"
  by (simp add: timeout_def postMessage_def)

lemma timeout_timers:
  "timers (timeout s i now) = timers s
   \<or> timers (timeout s i now) = take i (timers s) @ drop (Suc i) (timers s)"
  by (simp add: timeout_def postMessage_def)

lemma handle_demoToken:
  "demoToken (handle s e) = demoToken s + int (setWorld_calls [e])"
  by (cases e) (simp_all add: setWorld_demoToken onmessage_demoToken timeout_demoToken
        takeSnapshot_def restoreSnapshot_def run_def postMessage_def present_def)

lemma handle_timers_hold_steps:
  assumes "timers_hold_steps s"
  shows "timers_hold_steps (handle s e)"
proof (cases e)
  case (SetWorld w bs cs js now)
  then show ?thesis using assms by (simp add: timers_hold_steps_def setWorld_timers)
next
  case (Message dat now)
  then show ?thesis using assms onmessage_timers [of s dat now]
    by (auto simp add: timers_hold_steps_def is_step_stepMessage)
next
  case (Timeout i now)
  then show ?thesis using assms timeout_timers [of s i now]
    by (auto simp add: timers_hold_steps_def list_all_iff dest!: in_set_takeD in_set_dropD)
qed (use assms in \<open>simp_all add: timers_hold_steps_def takeSnapshot_def restoreSnapshot_def
       run_def postMessage_def present_def\<close>)

lemma setWorld_tokens_append:
  "setWorld_tokens (ms @ ns) = setWorld_tokens ms @ setWorld_tokens ns"
  by (simp add: setWorld_tokens_def)

lemma setWorld_tokens_Nil: "setWorld_tokens [] = []"
  by (simp add: setWorld_tokens_def)

lemma setWorld_tokens_step: "is_step m \<Longrightarrow> setWorld_tokens [m] = []"
  by (simp add: setWorld_tokens_def step_not_setWorld)

lemma handle_setWorld_tokens:
  assumes "timers_hold_steps s"
  shows "setWorld_tokens (outbox (handle s e)) =
           setWorld_tokens (outbox s) @
           (if setWorld_calls [e] = 0 then [] else [Some (num (demoToken s + 1))])"
proof (cases e)
  case (SetWorld w bs cs js now)
  then show ?thesis
    by (simp add: setWorld_outbox setWorld_tokens_def is_setWorld_def field_def obj_fields_def
          step_not_setWorld [OF is_step_stepMessage, unfolded is_setWorld_def field_def obj_fields_def])
next
  case (Message dat now)
  then show ?thesis using onmessage_outbox [of s dat now]
    by (auto simp add: setWorld_tokens_append setWorld_tokens_step is_step_stepMessage)
next
  case (Timeout i now)
  then show ?thesis using assms timeout_outbox [of s i now]
    by (auto simp add: setWorld_tokens_append setWorld_tokens_step timers_hold_steps_def
          list_all_length)
next
  case TakeSnapshot
  then show ?thesis
    by (simp add: takeSnapshot_def postMessage_def setWorld_tokens_def is_setWorld_def
          field_def obj_fields_def)
next
  case RestoreSnapshot
  then show ?thesis
    by (simp add: restoreSnapshot_def postMessage_def setWorld_tokens_def is_setWorld_def
          field_def obj_fields_def)
qed (simp_all add: run_def present_def)

lemma session_snoc: "session s (evs @ [e]) = handle (session s evs) e"
  by (simp add: session_def)

lemma setWorld_calls_append: "setWorld_calls (evs @ evs') = setWorld_calls evs + setWorld_calls evs'"
  by (induction evs rule: setWorld_calls.induct) simp_all

lemma session_timers_hold_steps:
  "timers_hold_steps s \<Longrightarrow> timers_hold_steps (session s evs)"
  by (induction evs rule: rev_induct) (simp_all add: session_snoc handle_timers_hold_steps session_def)

lemma session_demoToken: "demoToken (session s evs) = demoToken s + int (setWorld_calls evs)"
  by (induction evs rule: rev_induct)
     (simp_all add: session_snoc handle_demoToken setWorld_calls_append, simp add: session_def)

lemma session_setWorld_tokens:
  assumes "timers_hold_steps s"
  shows "setWorld_tokens (outbox (session s evs)) =
           setWorld_tokens (outbox s) @
           map (\<lambda>k. Some (num (demoToken s + int k))) [1..<Suc (setWorld_calls evs)]"
proof (induction evs rule: rev_induct)
  case Nil
  then show ?case by (simp add: session_def)
next
  case (snoc e evs)
  have inv: "timers_hold_steps (session s evs)"
    using assms by (rule session_timers_hold_steps)
  have one: "setWorld_calls [e] = 0 \<or> setWorld_calls [e] = 1"
    by (cases e) simp_all
  then show ?case
    by (auto simp add: session_snoc handle_setWorld_tokens [OF inv] snoc.IH session_demoToken
          setWorld_calls_append add.assoc)
qed


lemma num_inj: "(num a = num b) = (a = b)"
  by (simp add: num_def)

lemma constructed_simps:
  "demoToken constructed = 0" "outbox constructed = []" "timers constructed = []"
  "timers_hold_steps constructed"
  by (simp_all add: constructed_def timers_hold_steps_def)

lemma started_simps:
  "demoToken started = 1"
  "world started = Some (world60\<lparr>maxVelocityIterations := 4, maxPositionIterations := 1\<rparr>)"
  "lastMessageTime started = Some 0"
  "timers started = []"
  "parameters started = parameters constructed"
  by (simp_all add: started_def setWorld_def Let_def case_prod_beta postMessage_def present_def
        stepMessage_frame constructed_def stepMessage_def)

lemma onmessage_paced:
  assumes "world s = Some w" "lastMessageTime s = Some sent"
    and "dat = None \<or> (\<exists>d. dat = Some d \<and> token d = demoToken s)"
  shows "outbox (settle (onmessage s dat now)) =
           (if real_of_int (now - sent) \<ge> timestep w * 1000
            then outbox s @ [fst (stepMessage s)] else outbox s)"
    and "timers (settle (onmessage s dat now)) =
           (if real_of_int (now - sent) \<ge> timestep w * 1000 then timers s
            else timers s @ [\<lparr>delay = now - sent, setAt = now, payload = fst (stepMessage s)\<rparr>])"
    and "lastMessageTime (settle (onmessage s dat now)) =
           (if real_of_int (now - sent) \<ge> timestep w * 1000 then Some now else Some sent)"
  using assms
  by (auto simp add: onmessage_def settle_def Let_def case_prod_beta present_def postMessage_def
        stepMessage_frame stepMessage_fst_present [unfolded present_def])

lemma onmessage_stale: "token d \<noteq> demoToken s \<Longrightarrow> onmessage s (Some d) now = Inr s"
  by (simp add: onmessage_def)

section \<open>stepMessage: a single step\<close>

text \<open>
  C6. A step message built while the stepping flag is set carries \<open>running = true\<close>;
  building it clears both the running and the stepping flag, so the step message built
  next from the parameters it leaves carries \<open>running = false\<close>.
\<close>

theorem stepMessage_single_step:
  assumes "stepping (parameters s)"
  shows "field (fst (stepMessage s)) ''running'' = Some (JBool True)
       \<and> \<not> running (parameters (snd (stepMessage s)))
       \<and> \<not> stepping (parameters (snd (stepMessage s)))
       \<and> field (fst (stepMessage (snd (stepMessage s)))) ''running'' = Some (JBool False)"
  using assms by (simp add: stepMessage_def field_def obj_fields_def Let_def)

theorem stepMessage_single_step_witness:
  "stepping (parameters single_step_requested)
   \<and> field (fst (stepMessage single_step_requested)) ''running'' = Some (JBool True)
   \<and> \<not> running (parameters (snd (stepMessage single_step_requested)))
   \<and> \<not> stepping (parameters (snd (stepMessage single_step_requested)))
   \<and> field (fst (stepMessage (snd (stepMessage single_step_requested)))) ''running''
       = Some (JBool False)"
proof -
  have h: "stepping (parameters single_step_requested)"
    by (simp add: single_step_requested_def)
  from stepMessage_single_step [OF h] h show ?thesis by simp
qed

section \<open>The encoder: joints\<close>



section \<open>Tokens\<close>

text \<open>
  C1. Every call of \<open>setWorld\<close> increments \<open>demoToken\<close> exactly once, and the
  \<open>setWorld\<close> message it posts carries the incremented token. No other operation changes
  the token: after any sequence of events on a constructed testbed the token is the number
  of \<open>setWorld\<close> calls made, it never decreases as the session goes on, and the tokens
  of the \<open>setWorld\<close> messages posted are 1, 2, ..., one per call, so they strictly
  increase and none is used twice.
\<close>

theorem token_fresh_per_setWorld:
  "demoToken (setWorld s w bs cs js now) = demoToken s + 1
   \<and> (\<exists>m. outbox (setWorld s w bs cs js now) = outbox s @ [m, fst (stepMessage s)]
          \<and> is_setWorld m \<and> field m ''token'' = Some (num (demoToken s + 1)))
   \<and> demoToken (session constructed evs) = int (setWorld_calls evs)
   \<and> setWorld_tokens (outbox (session constructed evs))
        = map (\<lambda>k. Some (num (int k))) [1..<Suc (setWorld_calls evs)]
   \<and> distinct (setWorld_tokens (outbox (session constructed evs)))
   \<and> demoToken (session constructed evs) \<le> demoToken (session constructed (evs @ evs'))"
proof (intro conjI)
  show "demoToken (setWorld s w bs cs js now) = demoToken s + 1"
    by (rule setWorld_demoToken)
  show "\<exists>m. outbox (setWorld s w bs cs js now) = outbox s @ [m, fst (stepMessage s)]
          \<and> is_setWorld m \<and> field m ''token'' = Some (num (demoToken s + 1))"
    by (simp add: setWorld_outbox is_setWorld_def field_def obj_fields_def)
  show "demoToken (session constructed evs) = int (setWorld_calls evs)"
    by (simp add: session_demoToken constructed_simps)
  show toks: "setWorld_tokens (outbox (session constructed evs))
        = map (\<lambda>k. Some (num (int k))) [1..<Suc (setWorld_calls evs)]"
    by (simp add: session_setWorld_tokens constructed_simps setWorld_tokens_Nil)
  show "distinct (setWorld_tokens (outbox (session constructed evs)))"
    unfolding toks by (simp add: distinct_map inj_on_def num_inj)
  show "demoToken (session constructed evs) \<le> demoToken (session constructed (evs @ evs'))"
    by (simp add: session_demoToken setWorld_calls_append)
qed

section \<open>Results from the worker\<close>

text \<open>
  C2. A result whose token differs from \<open>demoToken\<close> (a smaller one in particular) leaves
  the testbed as it is: no call is made on the graphics or the Gui, so the positions, the
  step timing and the debug display stay as they were. A message without data makes no such
  call either. A result whose token equals \<open>demoToken\<close> makes exactly the three calls
  \<open>updatePositions\<close>, \<open>setTiming\<close> and \<open>setDebugInfos\<close>.
\<close>

theorem stale_result_discarded:
  "(token d \<noteq> demoToken s \<longrightarrow> onmessage s (Some d) now = Inr s)
   \<and> presentation (settle (onmessage s None now)) = presentation s
   \<and> (token d = demoToken s \<longrightarrow>
        presentation (settle (onmessage s (Some d) now)) =
          presentation s @ [UpdatePositions (positions d), SetTiming (stepTime d), SetDebugInfos d])"
  by (simp add: onmessage_def settle_def Let_def case_prod_beta present_def postMessage_def
        stepMessage_frame split: option.splits)

theorem stale_result_discarded_witness:
  "token (result_for 0) \<noteq> demoToken started
   \<and> onmessage started (Some (result_for 0)) 5 = Inr started
   \<and> token (result_for 1) = demoToken started
   \<and> presentation (settle (onmessage started (Some (result_for 1)) 5)) =
       presentation started @ [UpdatePositions (JArr []), SetTiming (JNum 1),
                               SetDebugInfos (result_for 1)]"
proof -
  have a: "token (result_for 0) \<noteq> demoToken started"
    and b: "token (result_for 1) = demoToken started"
    by (simp_all add: result_for_def started_simps)
  from stale_result_discarded [of "result_for 0" started 5]
       stale_result_discarded [of "result_for 1" started 5] a b
  show ?thesis by (simp add: result_for_def)
qed

text \<open>
  C3. The specification has a result that arrives less than one timestep after the last
  dispatch schedule its step message after the remainder of the timestep, and the comment
  in the handler asks not to step faster than the real world. The handler passes the
  elapsed time as the delay instead. With a timestep of 1/60 s, a last dispatch at
  time 0 and a result at 5 ms, the callback is set with a delay of 5 ms, not 1000/60 - 5;
  it can run at 10 ms, and the step message is then sent 10 ms after the previous one,
  less than one timestep.
\<close>

theorem deferred_after_elapsed_not_remainder:
  "timers (handle started (Message (Some (result_for 1)) 5))
     = [\<lparr>delay = 5, setAt = 5, payload = fst (stepMessage started)\<rparr>]
   \<and> real_of_int 5 < timestep world60 * 1000
   \<and> real_of_int 5 \<noteq> timestep world60 * 1000 - real_of_int 5
   \<and> lastMessageTime (session started [Message (Some (result_for 1)) 5, Timeout 0 10]) = Some 10
   \<and> outbox (session started [Message (Some (result_for 1)) 5, Timeout 0 10])
       = outbox started @ [fst (stepMessage started)]
   \<and> real_of_int (10 - 0) < timestep world60 * 1000"
proof -
  have acc: "Some (result_for 1) = None \<or> (\<exists>d. Some (result_for 1) = Some d \<and> token d = demoToken started)"
    by (simp add: result_for_def started_simps)
  note p = onmessage_paced [OF started_simps(2) started_simps(3) acc, of 5]
  have t: "timers (settle (onmessage started (Some (result_for 1)) 5))
            = [\<lparr>delay = 5, setAt = 5, payload = fst (stepMessage started)\<rparr>]"
    using p(2) by (simp add: started_simps world60_def)
  have ob: "outbox (settle (onmessage started (Some (result_for 1)) 5)) = outbox started"
    using p(1) by (simp add: world60_def)
  show ?thesis
    using t ob
    by (simp add: session_def timeout_def due_def postMessage_def world60_def)
qed

text \<open>
  C4, as stated, fails: a result whose token does not match is dropped before the pacing
  step. After a second \<open>setWorld\<close> the result for token 1 neither posts nor schedules
  anything.
\<close>

theorem stale_result_stops_loop:
  "token (result_for 1) \<noteq> demoToken (setWorld started world60 [ground] [cuboid] None 7)
   \<and> outbox (handle (setWorld started world60 [ground] [cuboid] None 7) (Message (Some (result_for 1)) 30))
       = outbox (setWorld started world60 [ground] [cuboid] None 7)
   \<and> timers (handle (setWorld started world60 [ground] [cuboid] None 7) (Message (Some (result_for 1)) 30))
       = timers (setWorld started world60 [ground] [cuboid] None 7)"
proof -
  have "token (result_for 1) \<noteq> demoToken (setWorld started world60 [ground] [cuboid] None 7)"
    by (simp add: setWorld_demoToken started_simps result_for_def)
  then show ?thesis
    by (simp add: onmessage_stale settle_def)
qed

text \<open>
  C4, amended. A result whose token equals \<open>demoToken\<close>, and a message without data, go
  on to the pacing step: the next step message is posted at once, and the time recorded,
  when at least one timestep has passed since the last dispatch, and otherwise handed to
  one deferred callback. A result whose token does not match leaves the testbed unchanged:
  nothing is posted or scheduled, and the loop of the superseded world ends there.
\<close>

theorem accepted_result_paces:
  "(world s = Some w \<and> lastMessageTime s = Some sent
      \<and> (dat = None \<or> (\<exists>d. dat = Some d \<and> token d = demoToken s))
    \<longrightarrow> is_step (fst (stepMessage s))
        \<and> (if real_of_int (now - sent) \<ge> timestep w * 1000
           then outbox (settle (onmessage s dat now)) = outbox s @ [fst (stepMessage s)]
              \<and> lastMessageTime (settle (onmessage s dat now)) = Some now
              \<and> timers (settle (onmessage s dat now)) = timers s
           else outbox (settle (onmessage s dat now)) = outbox s
              \<and> map payload (timers (settle (onmessage s dat now)))
                  = map payload (timers s) @ [fst (stepMessage s)]))
   \<and> (token d' \<noteq> demoToken s \<longrightarrow> settle (onmessage s (Some d') now) = s)"
proof (intro conjI impI)
  assume a: "world s = Some w \<and> lastMessageTime s = Some sent
      \<and> (dat = None \<or> (\<exists>d. dat = Some d \<and> token d = demoToken s))"
  then have w: "world s = Some w" and l: "lastMessageTime s = Some sent"
    and d: "dat = None \<or> (\<exists>d. dat = Some d \<and> token d = demoToken s)"
    by simp_all
  show "is_step (fst (stepMessage s))"
    by (rule is_step_stepMessage)
  show "if real_of_int (now - sent) \<ge> timestep w * 1000
           then outbox (settle (onmessage s dat now)) = outbox s @ [fst (stepMessage s)]
              \<and> lastMessageTime (settle (onmessage s dat now)) = Some now
              \<and> timers (settle (onmessage s dat now)) = timers s
           else outbox (settle (onmessage s dat now)) = outbox s
              \<and> map payload (timers (settle (onmessage s dat now)))
                  = map payload (timers s) @ [fst (stepMessage s)]"
    by (simp add: onmessage_paced [OF w l d])
next
  assume "token d' \<noteq> demoToken s"
  then show "settle (onmessage s (Some d') now) = s"
    by (simp add: onmessage_stale settle_def)
qed

theorem accepted_result_paces_witness:
  "world started = Some (world60\<lparr>maxVelocityIterations := 4, maxPositionIterations := 1\<rparr>)
   \<and> lastMessageTime started = Some 0
   \<and> token (result_for 1) = demoToken started
   \<and> token (result_for 0) \<noteq> demoToken started
   \<and> is_step (fst (stepMessage started))
   \<and> outbox (settle (onmessage started (Some (result_for 1)) 5)) = outbox started
   \<and> map payload (timers (settle (onmessage started (Some (result_for 1)) 5)))
       = [fst (stepMessage started)]
   \<and> outbox (settle (onmessage started (Some (result_for 1)) 20))
       = outbox started @ [fst (stepMessage started)]
   \<and> lastMessageTime (settle (onmessage started (Some (result_for 1)) 20)) = Some 20
   \<and> timers (settle (onmessage started (Some (result_for 1)) 20)) = []
   \<and> settle (onmessage started (Some (result_for 0)) 5) = started"
proof -
  have a: "token (result_for 1) = demoToken started"
    and b: "token (result_for 0) \<noteq> demoToken started"
    by (simp_all add: result_for_def started_simps)
  from accepted_result_paces
         [of started "world60\<lparr>maxVelocityIterations := 4, maxPositionIterations := 1\<rparr>" 0
             "Some (result_for 1)" 5 "result_for 0"]
       accepted_result_paces
         [of started "world60\<lparr>maxVelocityIterations := 4, maxPositionIterations := 1\<rparr>" 0
             "Some (result_for 1)" 20 "result_for 0"]
       a b
  show ?thesis by (simp add: started_simps world60_def)
qed

section \<open>Deferred dispatches\<close>

text \<open>
  C5. At most one deferred dispatch should be pending at any instant. The testbed keeps no
  handle of a callback it has scheduled and \<open>setWorld\<close> cancels none, so the callback
  of a superseded world survives the demo switch. After \<open>demo_switch\<close>, at 9 ms, two
  callbacks are pending, set at 5 ms and at 9 ms, and neither is due. The first still
  carries the step message of the old loop; the worker answers it with the token of the
  new world, so the result is accepted and the old loop goes on beside the new one: after
  \<open>demo_switch_continued\<close>, with four step messages posted and each answered once, the
  token is 2 and again two callbacks are pending, set 1 ms apart.
\<close>

theorem superseded_timer_survives_setWorld:
  "map setAt (timers (session constructed demo_switch)) = [5, 9]
   \<and> list_all (\<lambda>t. 9 < due t) (timers (session constructed demo_switch))
   \<and> demoToken (session constructed demo_switch) = 2
   \<and> map setAt (timers (session constructed demo_switch_continued)) = [12, 13]
   \<and> steps_posted (session constructed demo_switch_continued) = 4
   \<and> demoToken (session constructed demo_switch_continued) = 2"
  by (simp add: demo_switch_continued_def demo_switch_def session_def constructed_def
        setWorld_def onmessage_def settle_def timeout_def Let_def case_prod_beta
        postMessage_def present_def stepMessage_def result_for_def world60_def due_def
        steps_posted_def is_step_def field_def obj_fields_def extractWorldDescription_def)

section \<open>The encoder over the store: what it allocates\<close>

lemma ok_val_mono: "ok_val n h v \<Longrightarrow> prefix h h' \<Longrightarrow> ok_val n h' v"
  by (auto simp add: ok_val_def dest: prefix_length_le split: val.splits)

lemma fresh_from_old:
  "fresh_from n h \<Longrightarrow> n \<le> a \<Longrightarrow> a < length h
   \<Longrightarrow> built (h ! a) \<and> (\<forall>b\<in>refs_of (h ! a). n \<le> b \<and> b < length h)"
  unfolding fresh_from_def by blast

lemma fresh_from_append:
  assumes "fresh_from n h" "n \<le> length h"
    and "\<forall>c\<in>set cs. built c \<and> (\<forall>b\<in>refs_of c. n \<le> b \<and> b < length h + length cs)"
  shows "fresh_from n (h @ cs)"
  unfolding fresh_from_def
proof (intro allI impI, elim conjE)
  fix a assume a: "n \<le> a" "a < length (h @ cs)"
  show "built ((h @ cs) ! a) \<and> (\<forall>b\<in>refs_of ((h @ cs) ! a). n \<le> b \<and> b < length (h @ cs))"
  proof (cases "a < length h")
    case True
    with assms(1) a have "built (h ! a) \<and> (\<forall>b\<in>refs_of (h ! a). n \<le> b \<and> b < length h)"
      by (intro fresh_from_old)
    then have "built (h ! a)" and "\<And>b. b \<in> refs_of (h ! a) \<Longrightarrow> n \<le> b \<and> b < length h + length cs"
      by auto
    with True show ?thesis by (simp add: nth_append)
  next
    case False
    with a have "a - length h < length cs" by simp
    then have "cs ! (a - length h) \<in> set cs" by (rule nth_mem)
    with assms(3) have "built (cs ! (a - length h))
        \<and> (\<forall>b\<in>refs_of (cs ! (a - length h)). n \<le> b \<and> b < length h + length cs)"
      by blast
    with False show ?thesis by (simp add: nth_append)
  qed
qed

lemma refs_of_Lit: "refs_of (Lit fs) = {a. VRef a \<in> snd ` set fs}"
  by (simp add: refs_of_def)

lemma refs_of_Arr: "refs_of (Arr vs) = {a. VRef a \<in> set vs}"
  by (simp add: refs_of_def)

lemma built_simps: "built (Lit fs)" "built (Arr vs)"
  by (simp_all add: built_def)

lemma alloc_tidy:
  assumes "alloc c h = (r, h')" "n \<le> length h" "fresh_from n h" "built c"
    and "\<forall>b\<in>refs_of c. n \<le> b \<and> b < length h"
  shows "prefix h h' \<and> fresh_from n h' \<and> (\<forall>v. r = Inr v \<longrightarrow> ok_val n h' v)"
proof -
  from assms(1) have r: "r = Inr (VRef (length h))" and h': "h' = h @ [c]"
    by (auto simp add: alloc_def)
  have "\<forall>c'\<in>set [c]. built c' \<and> (\<forall>b\<in>refs_of c'. n \<le> b \<and> b < length h + length [c])"
    using assms(4,5) by auto
  with assms(3,2) have "fresh_from n (h @ [c])"
    by (rule fresh_from_append)
  then show ?thesis using r h' assms(2) by (simp add: ok_val_def)
qed

lemma metaWorld_st_tidy: "tidy (metaWorld_st wv)"
  unfolding tidy_def
proof (intro allI impI, elim conjE)
  fix n h r h'
  assume m: "metaWorld_st wv h = (r, h')" and n: "n \<le> length h" and f: "fresh_from n h"
  show "prefix h h' \<and> fresh_from n h' \<and> (\<forall>v. r = Inr v \<longrightarrow> ok_val n h' v)"
  proof (cases "\<exists>w. deref h wv = Some (LiveWorld w)")
    case True
    then obtain w where "deref h wv = Some (LiveWorld w)" by blast
    with m have "alloc (Lit [(''maxVelocityIterations'', vnum (maxVelocityIterations w)),
                      (''maxPositionIterations'', vnum (maxPositionIterations w))]) h = (r, h')"
      by (simp add: metaWorld_st_def)
    then show ?thesis
      by (rule alloc_tidy [OF _ n f]) (simp_all add: built_simps refs_of_Lit vnum_def)
  next
    case False
    with m have "r = Inl TypeError" "h' = h"
      by (auto simp add: metaWorld_st_def split: option.splits cell.splits)
    with f show ?thesis by simp
  qed
qed


lemma append_tidy:
  assumes "n \<le> length h" "fresh_from n h"
    and "\<forall>c\<in>set cs. built c \<and> (\<forall>b\<in>refs_of c. n \<le> b \<and> b < length h + length cs)"
    and "n \<le> a" "a < length h + length cs"
  shows "prefix h (h @ cs) \<and> fresh_from n (h @ cs)
         \<and> (\<forall>v. (Inr (VRef a) :: error + val) = Inr v \<longrightarrow> ok_val n (h @ cs) v)"
  using fresh_from_append [OF assms(2,1,3)] assms(4,5) by (simp add: ok_val_def)

lemma metaBody_st_eq:
  "deref h bv = Some (LiveBody body) \<Longrightarrow>
   metaBody_st bv h =
     (Inr (VRef (Suc (length h))),
      h @ [Lit [(''x'', VNum (vx (translation body))), (''y'', VNum (vy (translation body))),
                (''z'', VNum (vz (translation body)))],
           Lit [(''handle'', vnum (body_handle body)), (''type'', VStr (bodyType body)),
                (''translation'', VRef (length h)), (''mass'', VNum (mass body))]])"
  by (simp add: metaBody_st_def Let_def bind_st_def vec3_new_def alloc_def)

lemma metaBody_st_fail:
  "\<not> (\<exists>body. deref h bv = Some (LiveBody body)) \<Longrightarrow> metaBody_st bv h = (Inl TypeError, h)"
  by (auto simp add: metaBody_st_def split: option.splits cell.splits)

lemma metaBody_st_tidy: "tidy (metaBody_st bv)"
  unfolding tidy_def
proof (intro allI impI, elim conjE)
  fix n h r h'
  assume m: "metaBody_st bv h = (r, h')" and n: "n \<le> length h" and f: "fresh_from n h"
  show "prefix h h' \<and> fresh_from n h' \<and> (\<forall>v. r = Inr v \<longrightarrow> ok_val n h' v)"
  proof (cases "\<exists>body. deref h bv = Some (LiveBody body)")
    case True
    then obtain body where "deref h bv = Some (LiveBody body)" by blast
    from m [unfolded metaBody_st_eq [OF this]] show ?thesis
      using append_tidy [OF n f, of _ "Suc (length h)"] n
      by (auto simp add: built_simps refs_of_Lit vnum_def)
  next
    case False
    from m [unfolded metaBody_st_fail [OF False]] f show ?thesis by auto
  qed
qed


lemma metaCollider_st_eq:
  "deref h cv = Some (LiveCollider coll) \<Longrightarrow>
   metaCollider_st cv h =
     (Inr (VRef (length h)),
      (case halfExtents coll of
         None \<Rightarrow>
           h @ [Lit [(''handle'', vnum (coll_handle coll)),
                     (''parentHandle'', vnum (parentHandle coll)),
                     (''type'', VStr (shapeType coll)),
                     (''radius'', voptnum (radius coll)),
                     (''density'', VNum (density coll)),
                     (''friction'', VNum (friction coll)),
                     (''isSensor'', VBool (isSensor coll))]]
       | Some he \<Rightarrow>
           h @ [Lit [(''handle'', vnum (coll_handle coll)),
                     (''parentHandle'', vnum (parentHandle coll)),
                     (''type'', VStr (shapeType coll)),
                     (''radius'', voptnum (radius coll)),
                     (''density'', VNum (density coll)),
                     (''friction'', VNum (friction coll)),
                     (''isSensor'', VBool (isSensor coll)),
                     (''halfExtents'', VRef (Suc (length h)))],
                Lit [(''x'', VNum (vx he)), (''y'', VNum (vy he)), (''z'', VNum (vz he))]]))"
  by (simp add: metaCollider_st_def bind_st_def return_st_def vec3_new_def alloc_def
        assign_st_def nth_append list_update_append split: option.splits)

lemma metaCollider_st_fail:
  "\<not> (\<exists>coll. deref h cv = Some (LiveCollider coll)) \<Longrightarrow>
   metaCollider_st cv h = (Inl TypeError, h)"
  by (auto simp add: metaCollider_st_def split: option.splits cell.splits)

lemma voptnum_not_ref: "voptnum r \<noteq> VRef a" "VRef a \<noteq> voptnum r"
  by (simp_all add: voptnum_def split: option.splits)

lemma block_tidy:
  assumes "prefix h h'" "n \<le> length h" "fresh_from n h"
    and "\<forall>c\<in>set (drop (length h) h'). built c \<and> (\<forall>b\<in>refs_of c. n \<le> b \<and> b < length h')"
    and "\<forall>v. r = Inr v \<longrightarrow> ok_val n h' v"
  shows "prefix h h' \<and> fresh_from n h' \<and> (\<forall>v. r = Inr v \<longrightarrow> ok_val n h' v)"
proof -
  from assms(1) obtain cs where cs: "h' = h @ cs" by (auto simp add: prefix_def)
  with assms(4) have "\<forall>c\<in>set cs. built c \<and> (\<forall>b\<in>refs_of c. n \<le> b \<and> b < length h + length cs)"
    by simp
  with assms(3,2) have "fresh_from n (h @ cs)" by (rule fresh_from_append)
  with assms(1,5) cs show ?thesis by simp
qed

lemma metaCollider_st_tidy: "tidy (metaCollider_st cv)"
  unfolding tidy_def
proof (intro allI impI, elim conjE)
  fix n h r h'
  assume m: "metaCollider_st cv h = (r, h')" and n: "n \<le> length h" and f: "fresh_from n h"
  show "prefix h h' \<and> fresh_from n h' \<and> (\<forall>v. r = Inr v \<longrightarrow> ok_val n h' v)"
  proof (cases "\<exists>coll. deref h cv = Some (LiveCollider coll)")
    case True
    then obtain coll where d: "deref h cv = Some (LiveCollider coll)" by blast
    show ?thesis
      using m [unfolded metaCollider_st_eq [OF d]] n
      by (intro block_tidy [OF _ n f]; cases "halfExtents coll")
         (auto simp add: built_simps refs_of_Lit vnum_def voptnum_not_ref ok_val_def)
  next
    case False
    from m [unfolded metaCollider_st_fail [OF False]] f show ?thesis by auto
  qed
qed

lemma metaJoint_st_eq:
  "deref h jv = Some (LiveJoint j) \<Longrightarrow>
   metaJoint_st jv h =
     (Inr (VRef (length h + 6)),
      h @ [Lit [(''x'', VNum (vx (anchor1 j))), (''y'', VNum (vy (anchor1 j))),
                (''z'', VNum (vz (anchor1 j)))],
           Lit [(''x'', VNum (vx (anchor2 j))), (''y'', VNum (vy (anchor2 j))),
                (''z'', VNum (vz (anchor2 j)))],
           Lit [(''x'', VNum (vx (or_else (axis1 j) (Vec3 0 0 0)))),
                (''y'', VNum (vy (or_else (axis1 j) (Vec3 0 0 0)))),
                (''z'', VNum (vz (or_else (axis1 j) (Vec3 0 0 0))))],
           Lit [(''x'', VNum (vx (or_else (axis2 j) (Vec3 0 0 0)))),
                (''y'', VNum (vy (or_else (axis2 j) (Vec3 0 0 0)))),
                (''z'', VNum (vz (or_else (axis2 j) (Vec3 0 0 0))))],
           Lit [(''x'', VNum (qx (or_else (frameX1 j) (Quat 0 0 0 1)))),
                (''y'', VNum (qy (or_else (frameX1 j) (Quat 0 0 0 1)))),
                (''z'', VNum (qz (or_else (frameX1 j) (Quat 0 0 0 1)))),
                (''w'', VNum (qw (or_else (frameX1 j) (Quat 0 0 0 1))))],
           Lit [(''x'', VNum (qx (or_else (frameX2 j) (Quat 0 0 0 1)))),
                (''y'', VNum (qy (or_else (frameX2 j) (Quat 0 0 0 1)))),
                (''z'', VNum (qz (or_else (frameX2 j) (Quat 0 0 0 1)))),
                (''w'', VNum (qw (or_else (frameX2 j) (Quat 0 0 0 1))))],
           Lit [(''handle1'', vnum (bodyHandle1 j)),
                (''handle2'', vnum (bodyHandle2 j)),
                (''type'', VStr (jointType j)),
                (''anchor1'', VRef (length h)),
                (''anchor2'', VRef (length h + 1)),
                (''axis1'', VRef (length h + 2)),
                (''axis2'', VRef (length h + 3)),
                (''frameX1'', VRef (length h + 4)),
                (''frameX2'', VRef (length h + 5))]])"
  by (simp add: metaJoint_st_def Let_def bind_st_def vec3_new_def quat_new_def alloc_def)

lemma metaJoint_st_fail:
  "\<not> (\<exists>j. deref h jv = Some (LiveJoint j)) \<Longrightarrow> metaJoint_st jv h = (Inl TypeError, h)"
  by (auto simp add: metaJoint_st_def split: option.splits cell.splits)

lemma metaJoint_st_tidy: "tidy (metaJoint_st jv)"
  unfolding tidy_def
proof (intro allI impI, elim conjE)
  fix n h r h'
  assume m: "metaJoint_st jv h = (r, h')" and n: "n \<le> length h" and f: "fresh_from n h"
  show "prefix h h' \<and> fresh_from n h' \<and> (\<forall>v. r = Inr v \<longrightarrow> ok_val n h' v)"
  proof (cases "\<exists>j. deref h jv = Some (LiveJoint j)")
    case True
    then obtain j where d: "deref h jv = Some (LiveJoint j)" by blast
    show ?thesis
      using m [unfolded metaJoint_st_eq [OF d]] n
      by (intro block_tidy [OF _ n f])
         (auto simp add: built_simps refs_of_Lit vnum_def ok_val_def)
  next
    case False
    from m [unfolded metaJoint_st_fail [OF False]] f show ?thesis by auto
  qed
qed


lemma tidyD:
  "tidy m \<Longrightarrow> m h = (r, h') \<Longrightarrow> n \<le> length h \<Longrightarrow> fresh_from n h
   \<Longrightarrow> prefix h h' \<and> fresh_from n h' \<and> (\<forall>v. r = Inr v \<longrightarrow> ok_val n h' v)"
  unfolding tidy_def by blast

lemma bind_st_cases:
  assumes "bind_st m f h = (r, h')"
  obtains (fail) e where "m h = (Inl e, h')" "r = Inl e"
        | (ok) v h1 where "m h = (Inr v, h1)" "f v h1 = (r, h')"
  using assms by (auto simp add: bind_st_def split: prod.splits sum.splits)

lemma map_st_tidy:
  assumes t: "\<And>v. tidy (f v)"
  shows "map_st f vs h = (r, h') \<Longrightarrow> n \<le> length h \<Longrightarrow> fresh_from n h
         \<Longrightarrow> prefix h h' \<and> fresh_from n h' \<and> (\<forall>rs. r = Inr rs \<longrightarrow> list_all (ok_val n h') rs)"
proof (induction vs arbitrary: h r h')
  case Nil
  then show ?case by (auto simp add: return_st_def)
next
  case (Cons v vs)
  from Cons.prems(1) have b: "bind_st (f v) (\<lambda>x. bind_st (map_st f vs) (\<lambda>rs. return_st (x # rs))) h = (r, h')"
    by simp
  from b show ?case
  proof (cases rule: bind_st_cases)
    case (fail e)
    with tidyD [OF t fail(1) Cons.prems(2,3)] show ?thesis by simp
  next
    case (ok x h1)
    note first = tidyD [OF t ok(1) Cons.prems(2,3)]
    then have p1: "prefix h h1" and f1: "fresh_from n h1" and x: "ok_val n h1 x" by simp_all
    from p1 Cons.prems(2) have n1: "n \<le> length h1"
      by (auto dest: prefix_length_le)
    from ok(2) show ?thesis
    proof (cases rule: bind_st_cases)
      case (fail e)
      with Cons.IH [OF fail(1) n1 f1] p1 show ?thesis
        by (auto intro: prefix_order.trans)
    next
      case (ok rs h2)
      note rest = Cons.IH [OF ok(1) n1 f1]
      then have p2: "prefix h1 h2" by simp
      from ok(2) have "r = Inr (x # rs)" "h' = h2" by (simp_all add: return_st_def)
      with rest p1 ok_val_mono [OF x p2] show ?thesis
        by (auto intro: prefix_order.trans)
    qed
  qed
qed

lemma array_map_tidy:
  assumes t: "\<And>v. tidy (f v)"
  shows "tidy (array_map f arr)"
  unfolding tidy_def
proof (intro allI impI, elim conjE)
  fix n h r h'
  assume m: "array_map f arr h = (r, h')" and n: "n \<le> length h" and f: "fresh_from n h"
  show "prefix h h' \<and> fresh_from n h' \<and> (\<forall>v. r = Inr v \<longrightarrow> ok_val n h' v)"
  proof (cases "\<exists>vs. deref h arr = Some (Arr vs)")
    case True
    then obtain vs where "deref h arr = Some (Arr vs)" by blast
    with m have "bind_st (map_st f vs) (\<lambda>rs. alloc (Arr rs)) h = (r, h')"
      by (simp add: array_map_def)
    then show ?thesis
    proof (cases rule: bind_st_cases)
      case (fail e)
      with map_st_tidy [OF t fail(1) n f] show ?thesis by simp
    next
      case (ok rs h1)
      note ms = map_st_tidy [OF t ok(1) n f]
      then have p1: "prefix h h1" and f1: "fresh_from n h1" and rs: "list_all (ok_val n h1) rs"
        by simp_all
      from p1 n have n1: "n \<le> length h1" by (auto dest: prefix_length_le)
      from rs have "\<forall>b\<in>refs_of (Arr rs). n \<le> b \<and> b < length h1"
        by (auto simp add: refs_of_Arr list_all_iff ok_val_def)
      from alloc_tidy [OF ok(2) n1 f1 built_simps(2) this] p1 show ?thesis
        by (auto intro: prefix_order.trans)
    qed
  next
    case False
    with m have "r = Inl TypeError" "h' = h"
      by (auto simp add: array_map_def split: option.splits cell.splits)
    with f show ?thesis by simp
  qed
qed

lemma empty_array_tidy: "tidy (alloc (Arr []))"
  unfolding tidy_def
proof (intro allI impI, elim conjE)
  fix n h r h'
  assume m: "alloc (Arr []) h = (r, h')" and n: "n \<le> length h" and f: "fresh_from n h"
  show "prefix h h' \<and> fresh_from n h' \<and> (\<forall>v. r = Inr v \<longrightarrow> ok_val n h' v)"
    by (rule alloc_tidy [OF m n f]) (simp_all add: built_simps refs_of_Arr)
qed

lemma bind_st_tidy:
  assumes b: "bind_st m f h = (r, h')" and t: "tidy m" and n: "n \<le> length h"
    and f: "fresh_from n h"
  obtains (fail) e where "r = Inl e" "prefix h h'" "fresh_from n h'"
        | (ok) v h1 where "prefix h h1" "fresh_from n h1" "n \<le> length h1" "ok_val n h1 v"
                          "f v h1 = (r, h')"
  using b
proof (cases rule: bind_st_cases)
  case (fail e)
  with tidyD [OF t fail(1) n f] show ?thesis by (intro that(1)) simp_all
next
  case (ok v h1)
  note first = tidyD [OF t ok(1) n f]
  moreover from first n have "n \<le> length h1" by (auto dest: prefix_length_le)
  ultimately show ?thesis using ok(2) by (intro that(2)) simp_all
qed

lemma extractWorldDescription_st_tidy: "tidy (extractWorldDescription_st wv bv cv jv)"
  unfolding tidy_def
proof (intro allI impI, elim conjE)
  fix n h r h'
  assume m: "extractWorldDescription_st wv bv cv jv h = (r, h')"
    and n: "n \<le> length h" and f: "fresh_from n h"
  have tj: "tidy (if \<not> truthy jv then alloc (Arr []) else array_map metaJoint_st jv)"
    by (simp add: empty_array_tidy array_map_tidy metaJoint_st_tidy)
  from m [unfolded extractWorldDescription_st_def] metaWorld_st_tidy n f
  show "prefix h h' \<and> fresh_from n h' \<and> (\<forall>v. r = Inr v \<longrightarrow> ok_val n h' v)"
  proof (cases rule: bind_st_tidy)
    case (fail e)
    then show ?thesis by simp
  next
    case (ok mw h1)
    from ok(5) array_map_tidy [of metaBody_st, OF metaBody_st_tidy] ok(3) ok(2)
    show ?thesis
    proof (cases rule: bind_st_tidy)
      case (fail e)
      with ok(1) show ?thesis by (auto intro: prefix_order.trans)
    next
      case ok2: (ok mb h2)
      from ok2(5) array_map_tidy [of metaCollider_st, OF metaCollider_st_tidy] ok2(3) ok2(2)
      show ?thesis
      proof (cases rule: bind_st_tidy)
        case (fail e)
        with ok(1) ok2(1) show ?thesis by (auto intro: prefix_order.trans)
      next
        case ok3: (ok mc h3)
        from ok3(5) tj ok3(3) ok3(2)
        show ?thesis
        proof (cases rule: bind_st_tidy)
          case (fail e)
          with ok(1) ok2(1) ok3(1) show ?thesis by (auto intro: prefix_order.trans)
        next
          case ok4: (ok mj h4)
          have p14: "prefix h1 h4" and p24: "prefix h2 h4" and p04: "prefix h h4"
            using ok(1) ok2(1) ok3(1) ok4(1) by (auto intro: prefix_order.trans)
          have vals: "ok_val n h4 mw" "ok_val n h4 mb" "ok_val n h4 mc" "ok_val n h4 mj"
            using ok_val_mono [OF ok(4) p14] ok_val_mono [OF ok2(4) p24]
                  ok_val_mono [OF ok3(4) ok4(1)] ok4(4) by simp_all
          then have "\<forall>b\<in>refs_of (Lit [(''world'', mw), (''bodies'', mb), (''colliders'', mc),
                                       (''joints'', mj)]). n \<le> b \<and> b < length h4"
            by (auto simp add: refs_of_Lit ok_val_def)
          from alloc_tidy [OF ok4(5) ok4(3) ok4(2) built_simps(1) this] p04
          show ?thesis by (auto intro: prefix_order.trans)
        qed
      qed
    qed
  qed
qed

lemma reach_fresh:
  "reach h v a \<Longrightarrow> fresh_from n h \<Longrightarrow> ok_val n h v \<Longrightarrow> n \<le> a \<and> a < length h"
proof (induction rule: reach.induct)
  case (reach_here h a)
  then show ?case by (simp add: ok_val_def)
next
  case (reach_step h v a b)
  then have "n \<le> a" "a < length h" by simp_all
  from fresh_from_old [OF reach_step.prems(1) this] reach_step.hyps(3)
  show ?case by blast
qed

section \<open>The encoder over the store builds the description of the value-level encoder\<close>

lemma deref_mono: "deref h v = Some c \<Longrightarrow> prefix h h' \<Longrightarrow> deref h' v = Some c"
  by (auto simp add: deref_def prefix_def nth_append split: val.splits if_splits)

lemma those_map_Some:
  "those (map f xs) = Some ys \<Longrightarrow> x \<in> set xs \<Longrightarrow> \<exists>y. f x = Some y"
  by (induction xs arbitrary: ys) (auto split: option.splits)

lemma those_map_cong:
  "(\<And>x. x \<in> set xs \<Longrightarrow> f x = g x) \<Longrightarrow> those (map f xs) = those (map g xs)"
  by (induction xs) (auto split: option.splits)

lemma clone_mono:
  "clone k h v = Some j \<Longrightarrow> prefix h h' \<Longrightarrow> clone k h' v = Some j"
proof (induction k h v arbitrary: j rule: clone.induct)
  case (7 n h a)
  from "7.prems"(1) have a: "a < length h"
    by (simp split: if_splits)
  with "7.prems"(2) have a': "a < length h'" and same: "h' ! a = h ! a"
    by (auto simp add: prefix_def nth_append)
  show ?case
  proof (cases "h ! a")
    case (Lit fs)
    let ?f = "\<lambda>kv. map_option (Pair (fst kv)) (clone n h (snd kv))"
    let ?g = "\<lambda>kv. map_option (Pair (fst kv)) (clone n h' (snd kv))"
    from "7.prems"(1) a Lit obtain ys where ys: "those (map ?f fs) = Some ys"
      by (auto split: option.splits)
    have "?f kv = ?g kv" if "kv \<in> set fs" for kv
    proof -
      from those_map_Some [OF ys that] obtain y where "clone n h (snd kv) = Some y"
        by auto
      moreover from "7.IH"(1) [OF a Lit that this "7.prems"(2)]
      have "clone n h' (snd kv) = Some y" .
      ultimately show ?thesis by simp
    qed
    then have "those (map ?f fs) = those (map ?g fs)" by (rule those_map_cong)
    with "7.prems"(1) a a' same Lit show ?thesis by simp
  next
    case (Arr vs)
    from "7.prems"(1) a Arr obtain ys where ys: "those (map (clone n h) vs) = Some ys"
      by (auto split: option.splits)
    have "clone n h x = clone n h' x" if "x \<in> set vs" for x
    proof -
      from those_map_Some [OF ys that] obtain y where y: "clone n h x = Some y"
        by auto
      from "7.IH"(2) [OF a Arr that y "7.prems"(2)] y show ?thesis by simp
    qed
    then have "those (map (clone n h) vs) = those (map (clone n h') vs)"
      by (rule those_map_cong)
    with "7.prems"(1) a a' same Arr show ?thesis by simp
  qed (use "7.prems"(1) a in simp_all)
qed simp_all


lemma clone_optnum: "clone k h (voptnum r) = Some (optnum r)"
  by (simp add: voptnum_def optnum_def split: option.splits)

lemma metaWorld_st_agrees:
  assumes "deref h wv = Some (LiveWorld w)"
  shows "\<exists>r h'. metaWorld_st wv h = (Inr r, h') \<and> prefix h h'
           \<and> clone (Suc k) h' r = Some (metaWorld w)"
  using assms
  by (simp add: metaWorld_st_def alloc_def metaWorld_def vnum_def num_def)

lemma metaBody_st_agrees:
  assumes "deref h bv = Some (LiveBody body)"
  shows "\<exists>r h'. metaBody_st bv h = (Inr r, h') \<and> prefix h h'
           \<and> clone (Suc (Suc k)) h' r = Some (metaBody body)"
  by (simp add: metaBody_st_eq [OF assms] metaBody_def Let_def vec3_literal_def vnum_def
        num_def nth_append)

lemma metaCollider_st_agrees:
  assumes "deref h cv = Some (LiveCollider coll)"
  shows "\<exists>r h'. metaCollider_st cv h = (Inr r, h') \<and> prefix h h'
           \<and> clone (Suc (Suc k)) h' r = Some (metaCollider coll)"
  by (cases "halfExtents coll")
     (simp_all add: metaCollider_st_eq [OF assms] metaCollider_def Let_def vec3_literal_def
        vnum_def num_def nth_append clone_optnum)

lemma metaJoint_st_agrees:
  assumes "deref h jv = Some (LiveJoint j)"
  shows "\<exists>r h'. metaJoint_st jv h = (Inr r, h') \<and> prefix h h'
           \<and> clone (Suc (Suc k)) h' r = Some (metaJoint j)"
  by (simp add: metaJoint_st_eq [OF assms] metaJoint_def Let_def vec3_literal_def
        quat_literal_def vnum_def num_def nth_append)


lemma live_mono:
  "list_all2 (\<lambda>e x. deref h e = Some (K x)) vs xs \<Longrightarrow> prefix h h'
   \<Longrightarrow> list_all2 (\<lambda>e x. deref h' e = Some (K x)) vs xs"
  by (erule list_all2_mono) (rule deref_mono)

lemma those_map_all2:
  "list_all2 (\<lambda>r x. F r = Some (g x)) rs xs \<Longrightarrow> those (map F rs) = Some (map g xs)"
  by (induction rule: list_all2_induct) simp_all

lemma map_st_agrees:
  assumes elem: "\<And>v x h. deref h v = Some (K x) \<Longrightarrow>
                   \<exists>r h'. f v h = (Inr r, h') \<and> prefix h h' \<and> clone d h' r = Some (g x)"
  shows "list_all2 (\<lambda>e x. deref h e = Some (K x)) vs xs \<Longrightarrow>
         \<exists>rs h'. map_st f vs h = (Inr rs, h') \<and> prefix h h'
                \<and> list_all2 (\<lambda>r x. clone d h' r = Some (g x)) rs xs"
proof (induction vs arbitrary: xs h)
  case Nil
  then show ?case by (simp add: return_st_def)
next
  case (Cons v vs)
  from Cons.prems obtain x xs' where xs: "xs = x # xs'"
    and v: "deref h v = Some (K x)"
    and rest: "list_all2 (\<lambda>e x. deref h e = Some (K x)) vs xs'"
    by (auto simp add: list_all2_Cons1)
  from elem [OF v] obtain r h1 where r: "f v h = (Inr r, h1)" and p1: "prefix h h1"
    and c1: "clone d h1 r = Some (g x)" by blast
  from Cons.IH [OF live_mono [OF rest p1]] obtain rs h2
    where rs: "map_st f vs h1 = (Inr rs, h2)" and p2: "prefix h1 h2"
      and c2: "list_all2 (\<lambda>r x. clone d h2 r = Some (g x)) rs xs'" by blast
  have "map_st f (v # vs) h = (Inr (r # rs), h2)"
    by (simp add: bind_st_def return_st_def r rs)
  moreover have "prefix h h2" using p1 p2 by (rule prefix_order.trans)
  moreover have "list_all2 (\<lambda>r x. clone d h2 r = Some (g x)) (r # rs) xs"
    using clone_mono [OF c1 p2] c2 xs by simp
  ultimately show ?case by blast
qed

lemma array_map_agrees:
  assumes elem: "\<And>v x h. deref h v = Some (K x) \<Longrightarrow>
                   \<exists>r h'. f v h = (Inr r, h') \<and> prefix h h' \<and> clone d h' r = Some (g x)"
    and arr: "deref h arr = Some (Arr vs)"
    and live: "list_all2 (\<lambda>e x. deref h e = Some (K x)) vs xs"
  shows "\<exists>r h'. array_map f arr h = (Inr r, h') \<and> prefix h h'
           \<and> clone (Suc d) h' r = Some (JArr (map g xs))"
proof -
  from map_st_agrees [of K f d g, OF elem live] obtain rs h1
    where rs: "map_st f vs h = (Inr rs, h1)" and p1: "prefix h h1"
      and c: "list_all2 (\<lambda>r x. clone d h1 r = Some (g x)) rs xs" by blast
  let ?h = "h1 @ [Arr rs]"
  have run: "array_map f arr h = (Inr (VRef (length h1)), ?h)"
    by (simp add: array_map_def arr bind_st_def rs alloc_def)
  have "list_all2 (\<lambda>r x. clone d ?h r = Some (g x)) rs xs"
    using c by (rule list_all2_mono) (erule clone_mono, simp)
  then have "those (map (clone d ?h) rs) = Some (map g xs)"
    by (rule those_map_all2)
  then have "clone (Suc d) ?h (VRef (length h1)) = Some (JArr (map g xs))"
    by simp
  moreover have "prefix h1 ?h" by simp
  with p1 have "prefix h ?h" by (rule prefix_order.trans)
  ultimately show ?thesis using run by blast
qed


lemma extractWorldDescription_st_agrees:
  assumes w: "is_world h wv w" and bs: "is_bodies h bv bs"
    and cs: "is_colliders h cv cs" and js: "is_joints h jv js"
  shows "\<exists>d h'. extractWorldDescription_st wv bv cv jv h = (Inr d, h')
           \<and> clone 4 h' d = Some (extractWorldDescription w bs cs js)"
proof -
  from bs obtain bvs where barr: "deref h bv = Some (Arr bvs)"
    and blive: "list_all2 (\<lambda>e b. deref h e = Some (LiveBody b)) bvs bs"
    by (auto simp add: is_bodies_def split: option.splits cell.splits)
  from cs obtain cvs where carr: "deref h cv = Some (Arr cvs)"
    and clive: "list_all2 (\<lambda>e c. deref h e = Some (LiveCollider c)) cvs cs"
    by (auto simp add: is_colliders_def split: option.splits cell.splits)
  from w have "deref h wv = Some (LiveWorld w)" by (simp add: is_world_def)
  from metaWorld_st_agrees [OF this, of 2] obtain mw h1
    where r1: "metaWorld_st wv h = (Inr mw, h1)" and p1: "prefix h h1"
      and c1: "clone 3 h1 mw = Some (metaWorld w)"
    by (auto simp add: eval_nat_numeral)
  from array_map_agrees [of LiveBody metaBody_st "Suc (Suc 0)" metaBody,
         OF metaBody_st_agrees deref_mono [OF barr p1] live_mono [OF blive p1]]
  obtain mb h2
    where r2: "array_map metaBody_st bv h1 = (Inr mb, h2)" and p2: "prefix h1 h2"
      and c2: "clone 3 h2 mb = Some (JArr (map metaBody bs))"
    by (auto simp add: eval_nat_numeral)
  have p02: "prefix h h2" using p1 p2 by (rule prefix_order.trans)
  from array_map_agrees [of LiveCollider metaCollider_st "Suc (Suc 0)" metaCollider,
         OF metaCollider_st_agrees deref_mono [OF carr p02] live_mono [OF clive p02]]
  obtain mc h3
    where r3: "array_map metaCollider_st cv h2 = (Inr mc, h3)" and p3: "prefix h2 h3"
      and c3: "clone 3 h3 mc = Some (JArr (map metaCollider cs))"
    by (auto simp add: eval_nat_numeral)
  have p03: "prefix h h3" using p02 p3 by (rule prefix_order.trans)
  have "\<exists>mj h4. (if \<not> truthy jv then alloc (Arr []) else array_map metaJoint_st jv) h3
                    = (Inr mj, h4) \<and> prefix h3 h4
          \<and> clone 3 h4 mj
              = Some (case js of None \<Rightarrow> JArr [] | Some l \<Rightarrow> JArr (map metaJoint l))"
  proof (cases js)
    case None
    with js have "\<not> truthy jv" by (simp add: is_joints_def)
    with None show ?thesis by (simp add: alloc_def eval_nat_numeral)
  next
    case (Some l)
    with js obtain jvs where jarr: "deref h jv = Some (Arr jvs)"
      and jlive: "list_all2 (\<lambda>e j. deref h e = Some (LiveJoint j)) jvs l"
      by (auto simp add: is_joints_def split: option.splits cell.splits)
    from jarr have t: "truthy jv"
      by (auto simp add: deref_def truthy_def split: val.splits)
    from array_map_agrees [of LiveJoint metaJoint_st "Suc (Suc 0)" metaJoint,
           OF metaJoint_st_agrees deref_mono [OF jarr p03] live_mono [OF jlive p03]]
    show ?thesis using t Some by (simp add: eval_nat_numeral)
  qed
  then obtain mj h4
    where r4: "(if \<not> truthy jv then alloc (Arr []) else array_map metaJoint_st jv) h3
                 = (Inr mj, h4)" and p4: "prefix h3 h4"
      and c4: "clone 3 h4 mj
                 = Some (case js of None \<Rightarrow> JArr [] | Some l \<Rightarrow> JArr (map metaJoint l))"
    by blast
  let ?top = "Lit [(''world'', mw), (''bodies'', mb), (''colliders'', mc), (''joints'', mj)]"
  let ?h = "h4 @ [?top]"
  have p45: "prefix h4 ?h" by simp
  have p35: "prefix h3 ?h" using p4 p45 by (rule prefix_order.trans)
  have p25: "prefix h2 ?h" using p3 p35 by (rule prefix_order.trans)
  have p15: "prefix h1 ?h" using p2 p25 by (rule prefix_order.trans)
  have run: "extractWorldDescription_st wv bv cv jv h = (Inr (VRef (length h4)), ?h)"
    by (simp add: extractWorldDescription_st_def bind_st_def r1 r2 r3 r4 alloc_def)
  have "clone 4 ?h (VRef (length h4)) = Some (extractWorldDescription w bs cs js)"
    using clone_mono [OF c1 p15] clone_mono [OF c2 p25] clone_mono [OF c3 p35]
          clone_mono [OF c4 p45]
    by (simp add: eval_nat_numeral extractWorldDescription_def)
  with run show ?thesis by blast
qed


lemma is_mono:
  assumes "prefix h h'"
  shows "is_world h v w \<Longrightarrow> is_world h' v w"
    and "is_bodies h v bs \<Longrightarrow> is_bodies h' v bs"
    and "is_colliders h v cs \<Longrightarrow> is_colliders h' v cs"
    and "is_joints h v js \<Longrightarrow> is_joints h' v js"
proof -
  show "is_world h v w \<Longrightarrow> is_world h' v w"
    by (simp add: is_world_def deref_mono [OF _ assms])
  show "is_bodies h v bs \<Longrightarrow> is_bodies h' v bs"
    by (auto simp add: is_bodies_def deref_mono [OF _ assms] live_mono [OF _ assms]
          split: option.splits cell.splits)
  show "is_colliders h v cs \<Longrightarrow> is_colliders h' v cs"
    by (auto simp add: is_colliders_def deref_mono [OF _ assms] live_mono [OF _ assms]
          split: option.splits cell.splits)
  show "is_joints h v js \<Longrightarrow> is_joints h' v js"
    by (cases js)
       (auto simp add: is_joints_def deref_mono [OF _ assms] live_mono [OF _ assms]
          split: option.splits cell.splits)
qed

section \<open>The encoder is pure\<close>

text \<open>
  C9. Whatever its arguments are, the encoder only extends the store: every object that
  existed before the call is afterwards at its address with its content, whether the
  encoding succeeds or ends in an error. So the world, the arrays of bodies, colliders and
  joints and the objects in them are unchanged. When the encoder returns a description,
  every object that can be reached from it is an object literal or an array allocated during
  the call; none is an object of the live world, and the values they hold are primitives or
  references to other such objects. For a live world of the expected shape the encoder
  succeeds, and the structured clone of its result is the description that
  \<open>extractWorldDescription\<close> computes from the getters' values.
\<close>

theorem extractWorldDescription_pure:
  "prefix h (snd (extractWorldDescription_st wv bv cv jv h))
   \<and> (is_world h wv w \<and> is_bodies h bv bs \<and> is_colliders h cv cs \<and> is_joints h jv js
      \<longrightarrow> is_world (snd (extractWorldDescription_st wv bv cv jv h)) wv w
        \<and> is_bodies (snd (extractWorldDescription_st wv bv cv jv h)) bv bs
        \<and> is_colliders (snd (extractWorldDescription_st wv bv cv jv h)) cv cs
        \<and> is_joints (snd (extractWorldDescription_st wv bv cv jv h)) jv js
        \<and> (\<exists>d h'. extractWorldDescription_st wv bv cv jv h = (Inr d, h')
              \<and> clone 4 h' d = Some (extractWorldDescription w bs cs js)))
   \<and> (extractWorldDescription_st wv bv cv jv h = (Inr d, h') \<and> reach h' d a
        \<longrightarrow> length h \<le> a \<and> a < length h' \<and> built (h' ! a))"
proof -
  obtain r0 h0 where e: "extractWorldDescription_st wv bv cv jv h = (r0, h0)"
    by (cases "extractWorldDescription_st wv bv cv jv h")
  have base: "fresh_from (length h) h"
    by (auto simp add: fresh_from_def)
  note t = tidyD [OF extractWorldDescription_st_tidy e le_refl base]
  have p: "prefix h (snd (extractWorldDescription_st wv bv cv jv h))"
    using t e by simp
  have "length h \<le> a \<and> a < length h' \<and> built (h' ! a)"
    if "extractWorldDescription_st wv bv cv jv h = (Inr d, h')" and r: "reach h' d a"
  proof -
    from that(1) e t have f: "fresh_from (length h) h'" and v: "ok_val (length h) h' d"
      by simp_all
    from reach_fresh [OF r f v] have "length h \<le> a" "a < length h'" by simp_all
    with fresh_from_old [OF f this] show ?thesis by simp
  qed
  with p is_mono [OF p] extractWorldDescription_st_agrees [of h wv w bv bs cv cs jv js]
  show ?thesis by blast
qed

lemma live_store_holds:
  "is_world live_store (VRef 0) world60"
  "is_bodies live_store (VRef 1) [ground, cube]"
  "is_colliders live_store (VRef 2) [cuboid, ball]"
  "is_joints live_store (VRef 3) (Some [ball_joint, framed_joint])"
  by (simp_all add: live_store_def is_world_def is_bodies_def is_colliders_def is_joints_def
        deref_def)

theorem extractWorldDescription_pure_witness:
  "is_world live_store (VRef 0) world60
   \<and> is_bodies live_store (VRef 1) [ground, cube]
   \<and> is_colliders live_store (VRef 2) [cuboid, ball]
   \<and> is_joints live_store (VRef 3) (Some [ball_joint, framed_joint])
   \<and> (\<exists>a h'. extractWorldDescription_st (VRef 0) (VRef 1) (VRef 2) (VRef 3) live_store
                 = (Inr (VRef a), h')
         \<and> reach h' (VRef a) a
         \<and> length live_store \<le> a \<and> a < length h' \<and> built (h' ! a)
         \<and> prefix live_store h'
         \<and> is_world h' (VRef 0) world60
         \<and> is_bodies h' (VRef 1) [ground, cube]
         \<and> is_colliders h' (VRef 2) [cuboid, ball]
         \<and> is_joints h' (VRef 3) (Some [ball_joint, framed_joint])
         \<and> clone 4 h' (VRef a)
             = Some (extractWorldDescription world60 [ground, cube] [cuboid, ball]
                       (Some [ball_joint, framed_joint])))"
proof -
  note th = extractWorldDescription_pure
    [of live_store "VRef 0" "VRef 1" "VRef 2" "VRef 3" world60 "[ground, cube]"
        "[cuboid, ball]" "Some [ball_joint, framed_joint]"]
  from th live_store_holds obtain d h'
    where e: "extractWorldDescription_st (VRef 0) (VRef 1) (VRef 2) (VRef 3) live_store
                = (Inr d, h')"
      and c: "clone 4 h' d = Some (extractWorldDescription world60 [ground, cube]
                [cuboid, ball] (Some [ball_joint, framed_joint]))"
    by blast
  from c obtain a where d: "d = VRef a"
    by (cases d) (simp_all add: extractWorldDescription_def)
  have r: "reach h' (VRef a) a" by (rule reach_here)
  from th [of "VRef a" h' a] e d r live_store_holds c
  show ?thesis by auto
qed

section \<open>The encoder: colliders\<close>




section \<open>setWorld without joints\<close>

text \<open>
  C10. \<open>setWorld\<close> called without joints (or with a falsy value for them) stores an empty
  array in \<open>joints\<close>, and the \<open>setWorld\<close> message it posts has the field \<open>joints\<close>
  with the empty array as its value: the field is neither missing nor \<open>undefined\<close>.
  Over the store, the encoder succeeds for every falsy \<open>joints\<close> argument
  (\<open>undefined\<close>, \<open>null\<close>, \<open>false\<close>, 0, the empty string) and builds that
  description.
\<close>

theorem setWorld_without_joints:
  "joints (setWorld s w bs cs None now) = Some []
   \<and> field (extractWorldDescription w bs cs None) ''joints'' = Some (JArr [])
   \<and> (\<exists>m. outbox (setWorld s w bs cs None now) = outbox s @ [m, fst (stepMessage s)]
          \<and> is_setWorld m \<and> field m ''joints'' = Some (JArr []))
   \<and> (\<not> truthy jv \<and> is_world h wv w \<and> is_bodies h bv bs \<and> is_colliders h cv cs
      \<longrightarrow> (\<exists>d h'. extractWorldDescription_st wv bv cv jv h = (Inr d, h')
              \<and> clone 4 h' d = Some (extractWorldDescription w bs cs None)))"
proof (intro conjI impI)
  show "joints (setWorld s w bs cs None now) = Some []"
    by (simp add: setWorld_def Let_def case_prod_beta postMessage_def present_def
          stepMessage_def)
  show "field (extractWorldDescription w bs cs None) ''joints'' = Some (JArr [])"
    by (simp add: extractWorldDescription_def field_def obj_fields_def)
  show "\<exists>m. outbox (setWorld s w bs cs None now) = outbox s @ [m, fst (stepMessage s)]
          \<and> is_setWorld m \<and> field m ''joints'' = Some (JArr [])"
    by (simp add: setWorld_outbox is_setWorld_def extractWorldDescription_def field_def
          obj_fields_def)
next
  assume a: "\<not> truthy jv \<and> is_world h wv w \<and> is_bodies h bv bs \<and> is_colliders h cv cs"
  then have "is_joints h jv None" by (simp add: is_joints_def)
  with a show "\<exists>d h'. extractWorldDescription_st wv bv cv jv h = (Inr d, h')
              \<and> clone 4 h' d = Some (extractWorldDescription w bs cs None)"
    by (intro extractWorldDescription_st_agrees) simp_all
qed

theorem setWorld_without_joints_witness:
  "\<not> truthy VUndefined \<and> \<not> truthy VNull \<and> \<not> truthy (VBool False) \<and> \<not> truthy (VNum 0)
   \<and> \<not> truthy (VStr [])
   \<and> is_world live_store (VRef 0) world60
   \<and> is_bodies live_store (VRef 1) [ground, cube]
   \<and> is_colliders live_store (VRef 2) [cuboid, ball]
   \<and> (\<exists>d h'. extractWorldDescription_st (VRef 0) (VRef 1) (VRef 2) VUndefined live_store
                 = (Inr d, h')
         \<and> clone 4 h' d = Some (extractWorldDescription world60 [ground, cube] [cuboid, ball] None))
   \<and> (\<exists>d h'. extractWorldDescription_st (VRef 0) (VRef 1) (VRef 2) VNull live_store
                 = (Inr d, h')
         \<and> clone 4 h' d = Some (extractWorldDescription world60 [ground, cube] [cuboid, ball] None))
   \<and> (\<exists>d h'. extractWorldDescription_st (VRef 0) (VRef 1) (VRef 2) (VBool False) live_store
                 = (Inr d, h')
         \<and> clone 4 h' d = Some (extractWorldDescription world60 [ground, cube] [cuboid, ball] None))
   \<and> (\<exists>d h'. extractWorldDescription_st (VRef 0) (VRef 1) (VRef 2) (VNum 0) live_store
                 = (Inr d, h')
         \<and> clone 4 h' d = Some (extractWorldDescription world60 [ground, cube] [cuboid, ball] None))
   \<and> (\<exists>d h'. extractWorldDescription_st (VRef 0) (VRef 1) (VRef 2) (VStr []) live_store
                 = (Inr d, h')
         \<and> clone 4 h' d = Some (extractWorldDescription world60 [ground, cube] [cuboid, ball] None))"
proof -
  have f: "\<not> truthy VUndefined" "\<not> truthy VNull" "\<not> truthy (VBool False)"
          "\<not> truthy (VNum 0)" "\<not> truthy (VStr [])"
    by (simp_all add: truthy_def)
  note th = setWorld_without_joints
    [where h = live_store and wv = "VRef 0" and bv = "VRef 1" and cv = "VRef 2"
       and w = world60 and bs = "[ground, cube]" and cs = "[cuboid, ball]"]
  from th [where jv = VUndefined] th [where jv = VNull] th [where jv = "VBool False"]
       th [where jv = "VNum 0"] th [where jv = "VStr []"] f live_store_holds(1-3)
  show ?thesis by simp
qed

end
